theory Spec2Isabelle
  imports Complex_Main "HOL-Library.AList"
begin

section \<open>Python values and the operations the agent applies to them\<close>

text \<open>
  The gateway's replies, the tool arguments and the critic's verdict are what
  \<^verbatim>\<open>json.loads\<close> and \<^verbatim>\<open>resp.json()\<close> return: dynamically typed JSON values.  A dict is an
  association list in insertion order with one binding for each key; a float is a real
  number or one of the three values that \<^verbatim>\<open>json.loads\<close> decodes \<^verbatim>\<open>Infinity\<close>, \<^verbatim>\<open>-Infinity\<close> and
  \<^verbatim>\<open>NaN\<close> to.  Strings are lists of characters, each character one code point below 256.
\<close>

datatype py_float = Finite real | PosInf | NegInf | NotANumber

datatype json =
    JNull
  | JBool bool
  | JInt int
  | JFloat py_float
  | JStr string
  | JArr "json list"
  | JObj "(string \<times> json) list"

datatype py_error =
    JSONDecodeError
  | AttributeError
  | TypeError
  | KeyError
  | IndexError
  | ValueError
  | RecursionError
  | HTTPError
  | OtherError string

type_synonym ('a, 's) prog = "'s \<Rightarrow> (py_error + 'a) \<times> 's"

definition ret :: "'a \<Rightarrow> ('a, 's) prog" where
  "ret x s = (Inr x, s)"

definition lift :: "py_error + 'a \<Rightarrow> ('a, 's) prog" where
  "lift r s = (r, s)"

definition bindp :: "('a, 's) prog \<Rightarrow> ('a \<Rightarrow> ('b, 's) prog) \<Rightarrow> ('b, 's) prog" where
  "bindp m f s = (case m s of (Inl e, s') \<Rightarrow> (Inl e, s') | (Inr x, s') \<Rightarrow> f x s')"

text \<open>Truth value of a Python object, as \<^verbatim>\<open>if x:\<close> tests it.\<close>

fun truthy :: "json \<Rightarrow> bool" where
  "truthy JNull = False"
| "truthy (JBool b) = b"
| "truthy (JInt i) = (i \<noteq> 0)"
| "truthy (JFloat r) = (r \<noteq> Finite 0)"
| "truthy (JStr s) = (s \<noteq> [])"
| "truthy (JArr xs) = (xs \<noteq> [])"
| "truthy (JObj kvs) = (kvs \<noteq> [])"

text \<open>\<^verbatim>\<open>v.get(k, d)\<close>: only a dict has the method.\<close>

definition dict_get :: "json \<Rightarrow> string \<Rightarrow> json \<Rightarrow> py_error + json" where
  "dict_get v k d =
     (case v of
        JObj kvs \<Rightarrow> Inr (case map_of kvs k of None \<Rightarrow> d | Some x \<Rightarrow> x)
      | _ \<Rightarrow> Inl AttributeError)"

text \<open>\<^verbatim>\<open>v[k]\<close> with a string key: KeyError on a dict without the key, TypeError elsewhere.\<close>

definition subscript :: "json \<Rightarrow> string \<Rightarrow> py_error + json" where
  "subscript v k =
     (case v of
        JObj kvs \<Rightarrow> (case map_of kvs k of None \<Rightarrow> Inl KeyError | Some x \<Rightarrow> Inr x)
      | _ \<Rightarrow> Inl TypeError)"

text \<open>The elements a \<^verbatim>\<open>for\<close> loop visits: a dict yields its keys, a string its characters.\<close>

definition py_iter :: "json \<Rightarrow> py_error + json list" where
  "py_iter v =
     (case v of
        JArr xs \<Rightarrow> Inr xs
      | JObj kvs \<Rightarrow> Inr (map (\<lambda>kv. JStr (fst kv)) kvs)
      | JStr s \<Rightarrow> Inr (map (\<lambda>c. JStr [c]) s)
      | _ \<Rightarrow> Inl TypeError)"

definition py_len :: "json \<Rightarrow> py_error + nat" where
  "py_len v =
     (case v of
        JArr xs \<Rightarrow> Inr (length xs)
      | JObj kvs \<Rightarrow> Inr (length kvs)
      | JStr s \<Rightarrow> Inr (length s)
      | _ \<Rightarrow> Inl TypeError)"

text \<open>\<^verbatim>\<open>v[i]\<close> with an integer \<open>i\<close> already known to be in \<open>0 \<le> i < len(v)\<close>; the keys of a
  decoded dict are strings, so an integer key is never found.\<close>

definition getitem_int :: "json \<Rightarrow> nat \<Rightarrow> py_error + json" where
  "getitem_int v i =
     (case v of
        JArr xs \<Rightarrow> (if i < length xs then Inr (xs ! i) else Inl IndexError)
      | JStr s \<Rightarrow> (if i < length s then Inr (JStr [s ! i]) else Inl IndexError)
      | JObj kvs \<Rightarrow> Inl KeyError
      | _ \<Rightarrow> Inl TypeError)"

text \<open>Python's \<^verbatim>\<open>str.isspace\<close> on the code points below 256, and \<^verbatim>\<open>str.strip()\<close>.\<close>

definition py_isspace :: "char \<Rightarrow> bool" where
  "py_isspace c =
     (c \<in> {CHR 0x09, CHR 0x0A, CHR 0x0B, CHR 0x0C, CHR 0x0D,
            CHR 0x1C, CHR 0x1D, CHR 0x1E, CHR 0x1F, CHR 0x20, CHR 0x85, CHR 0xA0})"

definition strip :: "string \<Rightarrow> string" where
  "strip s = rev (dropWhile py_isspace (rev (dropWhile py_isspace s)))"

definition startswith :: "string \<Rightarrow> string \<Rightarrow> bool" where
  "startswith s p = (take (length p) s = p)"

definition endswith :: "string \<Rightarrow> string \<Rightarrow> bool" where
  "endswith s p = (length p \<le> length s \<and> drop (length s - length p) s = p)"

text \<open>Decimal rendering of a natural number, as an f-string prints an \<^verbatim>\<open>int\<close>.\<close>

definition digit_char :: "nat \<Rightarrow> char" where
  "digit_char d = ''0123456789'' ! d"

function show_nat :: "nat \<Rightarrow> string" where
  "show_nat n = (if n < 10 then [digit_char n] else show_nat (n div 10) @ [digit_char (n mod 10)])"
  by pat_completeness auto
termination
  by (relation "measure (\<lambda>n. n)") auto

declare show_nat.simps [simp del]

fun join :: "string \<Rightarrow> string list \<Rightarrow> string" where
  "join sep [] = []"
| "join sep [x] = x"
| "join sep (x # y # zs) = x @ sep @ join sep (y # zs)"

section \<open>Collaborators, messages and program state\<close>

text \<open>
  \<^verbatim>\<open>messages\<close> holds three shapes of dict: the user turn, the assistant turn carrying one tool
  call, and the tool turn carrying the call's id and its result.
\<close>

datatype message =
    UserMsg string
  | AssistantMsg json
  | ToolMsg json string

text \<open>
  What lies outside the repository is a parameter: the decoder \<^verbatim>\<open>json.loads\<close> on a string, which
  returns a value or raises (JSONDecodeError on most texts that are not JSON; on some texts
  RecursionError or a plain ValueError; \<^verbatim>\<open>NaN\<close>, \<^verbatim>\<open>Infinity\<close> and \<^verbatim>\<open>-Infinity\<close> it decodes), Python's \<^verbatim>\<open>str()\<close> of a value that is not a string, the HTTP round trips of
  \<^verbatim>\<open>minirag.py\<close>, reading the index files, and the FAISS search.  Each effectful one reads
  and updates a world \<open>'w\<close> of its own, so it may answer the same request differently each time,
  and each may raise.
\<close>

record ('w, 'idx) env =
  loads :: "string \<Rightarrow> py_error + json"
  str_other :: "json \<Rightarrow> string"
  chat_completion :: "string \<Rightarrow> string \<Rightarrow> 'w \<Rightarrow> (py_error + json) \<times> 'w"
  tools_completion :: "message list \<Rightarrow> json list \<Rightarrow> string \<Rightarrow> 'w \<Rightarrow> (py_error + json) \<times> 'w"
  embedding :: "json \<Rightarrow> 'w \<Rightarrow> (py_error + real list) \<times> 'w"
  read_index :: "'w \<Rightarrow> (py_error + 'idx \<times> json) \<times> 'w"
  faiss_search :: "'idx \<Rightarrow> real list \<Rightarrow> json \<Rightarrow> 'w \<Rightarrow> (py_error + (real \<times> int) list) \<times> 'w"

text \<open>Every call that leaves the process is recorded, with its outcome where the agent uses it.\<close>

datatype event =
    ToolChat "message list" "json list" "py_error + json"
  | Chat string string "py_error + json"
  | Embed json
  | IndexSearch json
  | LoadIndex
  | Verdict json

text \<open>The module globals \<^verbatim>\<open>_index\<close>, \<^verbatim>\<open>_metadata\<close>, the world and the record of calls.\<close>

record ('w, 'idx) state =
  world :: 'w
  index_cache :: "('idx \<times> json) option"
  events :: "event list"

definition py_str :: "('w, 'idx) env \<Rightarrow> json \<Rightarrow> string" where
  "py_str env v = (case v of JStr s \<Rightarrow> s | _ \<Rightarrow> str_other env v)"

text \<open>\<^verbatim>\<open>json.loads(x)\<close>: a value that is not a string is a TypeError.\<close>

definition json_loads :: "('w, 'idx) env \<Rightarrow> json \<Rightarrow> py_error + json" where
  "json_loads env x =
     (case x of
        JStr s \<Rightarrow> loads env s
      | _ \<Rightarrow> Inl TypeError)"

definition log_event :: "event \<Rightarrow> ('w, 'idx) state \<Rightarrow> ('w, 'idx) state" where
  "log_event e s = s\<lparr>events := events s @ [e]\<rparr>"

text \<open>\<^verbatim>\<open>minirag.py\<close>: the three gateway calls.\<close>

definition azure_chat ::
  "('w, 'idx) env \<Rightarrow> string \<Rightarrow> string \<Rightarrow> (json, ('w, 'idx) state) prog" where
  "azure_chat env prompt system_prompt s =
     (case chat_completion env prompt system_prompt (world s) of
        (r, w') \<Rightarrow> (r, log_event (Chat prompt system_prompt r) (s\<lparr>world := w'\<rparr>)))"

definition azure_chat_with_tools ::
  "('w, 'idx) env \<Rightarrow> message list \<Rightarrow> json list \<Rightarrow> string \<Rightarrow> (json, ('w, 'idx) state) prog" where
  "azure_chat_with_tools env messages tools system_prompt s =
     (case tools_completion env messages tools system_prompt (world s) of
        (r, w') \<Rightarrow> (r, log_event (ToolChat messages tools r) (s\<lparr>world := w'\<rparr>)))"

definition azure_embed ::
  "('w, 'idx) env \<Rightarrow> json \<Rightarrow> (real list, ('w, 'idx) state) prog" where
  "azure_embed env txt s =
     (case embedding env txt (world s) of
        (r, w') \<Rightarrow> (r, log_event (Embed txt) (s\<lparr>world := w'\<rparr>)))"

section \<open>\<^verbatim>\<open>vector_store.py\<close>: retrieval and context formatting\<close>

definition load_index :: "('w, 'idx) env \<Rightarrow> ('idx \<times> json, ('w, 'idx) state) prog" where
  "load_index env s =
     (case read_index env (world s) of
        (r, w') \<Rightarrow> (r, log_event LoadIndex (s\<lparr>world := w'\<rparr>)))"

definition index_search ::
  "('w, 'idx) env \<Rightarrow> 'idx \<Rightarrow> real list \<Rightarrow> json \<Rightarrow> ((real \<times> int) list, ('w, 'idx) state) prog" where
  "index_search env index query_np top_k s =
     (case faiss_search env index query_np top_k (world s) of
        (r, w') \<Rightarrow> (r, log_event (IndexSearch top_k) (s\<lparr>world := w'\<rparr>)))"

record passage =
  chunk_id :: json
  filename :: json
  page_num :: json
  chunk_text :: json
  score :: real
  citation :: string

definition make_passage :: "('w, 'idx) env \<Rightarrow> json \<Rightarrow> real \<Rightarrow> py_error + passage" where
  "make_passage env chunk_meta dst =
     (case subscript chunk_meta ''chunk_id'' of Inl e \<Rightarrow> Inl e | Inr cid \<Rightarrow>
      case subscript chunk_meta ''filename'' of Inl e \<Rightarrow> Inl e | Inr fname \<Rightarrow>
      case subscript chunk_meta ''page_num'' of Inl e \<Rightarrow> Inl e | Inr pnum \<Rightarrow>
      case subscript chunk_meta ''text'' of Inl e \<Rightarrow> Inl e | Inr txt \<Rightarrow>
        Inr \<lparr>chunk_id = cid, filename = fname, page_num = pnum, chunk_text = txt, score = dst,
             citation = ''['' @ py_str env fname @ '', Page '' @ py_str env pnum @ '']''\<rparr>)"

text \<open>The loop of \<^verbatim>\<open>retrieve\<close> over the labels FAISS returned, each with its distance.\<close>

fun collect_results ::
  "('w, 'idx) env \<Rightarrow> json \<Rightarrow> (real \<times> int) list \<Rightarrow> py_error + passage list" where
  "collect_results env metadata [] = Inr []"
| "collect_results env metadata ((dst, idx) # rest) =
     (if idx < 0 then collect_results env metadata rest
      else case py_len metadata of Inl e \<Rightarrow> Inl e | Inr n \<Rightarrow>
        if idx \<ge> int n then collect_results env metadata rest
        else case getitem_int metadata (nat idx) of Inl e \<Rightarrow> Inl e | Inr chunk_meta \<Rightarrow>
             case make_passage env chunk_meta dst of Inl e \<Rightarrow> Inl e | Inr p \<Rightarrow>
             case collect_results env metadata rest of Inl e \<Rightarrow> Inl e | Inr ps \<Rightarrow> Inr (p # ps))"

definition retrieve ::
  "('w, 'idx) env \<Rightarrow> json \<Rightarrow> json \<Rightarrow> 'idx \<Rightarrow> json \<Rightarrow> (passage list, ('w, 'idx) state) prog" where
  "retrieve env query top_k index metadata =
     bindp (if metadata = JNull then load_index env else ret (index, metadata)) (\<lambda>(index, metadata).
     bindp (azure_embed env query) (\<lambda>query_embedding.
     bindp (index_search env index query_embedding top_k) (\<lambda>found.
       lift (collect_results env metadata found))))"

definition format_context :: "('w, 'idx) env \<Rightarrow> passage list \<Rightarrow> string" where
  "format_context env results =
     (if results = [] then ''No relevant information found.''
      else join ''\<newline>---\<newline>''
             (map (\<lambda>(i, r). ''[Source '' @ show_nat i @ ''] '' @ citation r @ ''\<newline>''
                               @ py_str env (chunk_text r) @ ''\<newline>'')
                  (zip [1 ..< Suc (length results)] results)))"

section \<open>\<^verbatim>\<open>agentic_rag.py\<close>: tool schema and dispatcher\<close>

definition SEARCH_NIST_TOOL :: json where
  "SEARCH_NIST_TOOL =
     JObj [(''type'', JStr ''function''),
           (''function'', JObj
              [(''name'', JStr ''search_nist_knowledge''),
               (''description'', JStr ''Search the NIST cybersecurity publications knowledge base to find relevant information about security frameworks, access control, cryptography, zero trust, PKI, and other cybersecurity topics.''),
               (''parameters'', JObj
                  [(''type'', JStr ''object''),
                   (''properties'', JObj
                      [(''query'', JObj
                          [(''type'', JStr ''string''),
                           (''description'', JStr ''The search query to find relevant NIST publications and guidelines and extract useful information.'')]),
                       (''top_k'', JObj
                          [(''type'', JStr ''integer''),
                           (''description'', JStr ''Number of results to return (default: 5)''),
                           (''default'', JInt 5)])]),
                   (''required'', JArr [JStr ''query''])])])]"

definition TOOLS :: "json list" where
  "TOOLS = [SEARCH_NIST_TOOL]"

definition get_index :: "('w, 'idx) env \<Rightarrow> ('idx \<times> json, ('w, 'idx) state) prog" where
  "get_index env s =
     (case index_cache s of
        Some im \<Rightarrow> (Inr im, s)
      | None \<Rightarrow>
          (case load_index env s of
             (Inl e, s') \<Rightarrow> (Inl e, s')
           | (Inr im, s') \<Rightarrow> (Inr im, s'\<lparr>index_cache := Some im\<rparr>)))"

definition execute_tool ::
  "('w, 'idx) env \<Rightarrow> json \<Rightarrow> json \<Rightarrow> (string, ('w, 'idx) state) prog" where
  "execute_tool env tool_name arguments =
     (if tool_name = JStr ''search_nist_knowledge'' then
        bindp (lift (dict_get arguments ''query'' (JStr []))) (\<lambda>query.
        bindp (lift (dict_get arguments ''top_k'' (JInt 5))) (\<lambda>top_k.
        bindp (get_index env) (\<lambda>(index, metadata).
        bindp (retrieve env query top_k index metadata) (\<lambda>results.
          ret (format_context env results)))))
      else ret (''Unknown tool: '' @ py_str env tool_name))"

section \<open>\<^verbatim>\<open>agentic_rag.py\<close>: the critic\<close>

definition CRITIC_SYSTEM_PROMPT :: string where
  \<open>CRITIC_SYSTEM_PROMPT = ''You are a critic agent that evaluates whether retrieved context is sufficient to answer a user's question.\<newline>\<newline>Analyze the query and retrieved context, then respond with a JSON object:\<newline>{\<newline>    "decision": "sufficient" | "insufficient" | "needs_refinement",\<newline>    "reasoning": "Brief explanation of your decision",\<newline>    "refined_query": "If needs_refinement, provide an improved search query, otherwise null"\<newline>}\<newline>\<newline>Guidelines:\<newline>- "sufficient": Context directly addresses the query with relevant, specific information\<newline>- "insufficient": Context is completely unrelated or missing critical information\<newline>- "needs_refinement": Context is partially relevant but a better search query could improve results''\<close>

definition critic_prompt :: "string \<Rightarrow> string \<Rightarrow> string" where
  "critic_prompt query context =
     ''User Query: '' @ query @ ''\<newline>\<newline>Retrieved Context:\<newline>'' @ context
       @ ''\<newline>\<newline>Evaluate if this context sufficiently answers the query. Respond with JSON only.''"

text \<open>The text handed to the decoder: the reply without surrounding white space and fences.\<close>

definition cleaned_response :: "string \<Rightarrow> string" where
  "cleaned_response response =
     (let c1 = strip response;
          c2 = (if startswith c1 ''```json'' then drop 7 c1
                else if startswith c1 ''```'' then drop 3 c1
                else c1);
          c3 = (if endswith c2 ''```'' then take (length c2 - 3) c2 else c2)
      in strip c3)"

definition fallback_verdict :: json where
  "fallback_verdict =
     JObj [(''decision'', JStr ''sufficient''),
           (''reasoning'', JStr ''Parse error fallback''),
           (''refined_query'', JNull)]"

text \<open>\<^verbatim>\<open>v[:100]\<close> evaluates on a string and on a list, and raises on every other decoded value.\<close>

definition sliceable :: "json \<Rightarrow> bool" where
  "sliceable v = (case v of JStr _ \<Rightarrow> True | JArr _ \<Rightarrow> True | _ \<Rightarrow> False)"

text \<open>
  The \<^verbatim>\<open>try\<close> block of \<^verbatim>\<open>critic_evaluate\<close> on a reply that is a string.  Only JSONDecodeError is
  caught: another exception of the decoder leaves the function, and so does what the log line
  between decoding and \<^verbatim>\<open>return\<close> raises, which calls \<^verbatim>\<open>result.get\<close> twice and slices the
  reasoning.
\<close>

definition parse_verdict :: "('w, 'idx) env \<Rightarrow> string \<Rightarrow> py_error + json" where
  "parse_verdict env response =
     (case loads env (cleaned_response response) of
        Inl e \<Rightarrow> if e = JSONDecodeError then Inr fallback_verdict else Inl e
      | Inr result \<Rightarrow>
          (case dict_get result ''decision'' JNull of Inl e \<Rightarrow> Inl e | Inr _ \<Rightarrow>
           case dict_get result ''reasoning'' (JStr []) of Inl e \<Rightarrow> Inl e | Inr reasoning \<Rightarrow>
             if sliceable reasoning then Inr result else Inl TypeError))"

definition critic_evaluate ::
  "('w, 'idx) env \<Rightarrow> string \<Rightarrow> string \<Rightarrow> (json, ('w, 'idx) state) prog" where
  "critic_evaluate env query context =
     bindp (azure_chat env (critic_prompt query context) CRITIC_SYSTEM_PROMPT) (\<lambda>response.
       case response of
         JStr r \<Rightarrow>
           bindp (lift (parse_verdict env r)) (\<lambda>result s. (Inr result, log_event (Verdict result) s))
       | _ \<Rightarrow> lift (Inl AttributeError))"

section \<open>\<^verbatim>\<open>agentic_rag.py\<close>: the orchestrator\<close>

definition AGENT_SYSTEM_PROMPT :: string where
  "AGENT_SYSTEM_PROMPT = ''You are a knowledgeable assistant specializing in NIST cybersecurity publications and guidelines.\<newline>\<newline>When answering questions:\<newline>1. Use the search_nist_knowledge tool to find relevant information from NIST publications\<newline>2. Synthesize information from multiple sources when appropriate\<newline>3. Always cite your sources using the format [Source Name, Page X]\<newline>4. If information is not found, clearly state that\<newline>\<newline>Be accurate, thorough, and cite specific documents when possible.''"

text \<open>One pass of the \<^verbatim>\<open>for tool_call in tool_calls\<close> body: the result and the grown messages.\<close>

definition tool_call_step ::
  "('w, 'idx) env \<Rightarrow> json \<Rightarrow> message list \<Rightarrow> (string \<times> message list, ('w, 'idx) state) prog" where
  "tool_call_step env tool_call messages =
     bindp (lift (subscript tool_call ''function'')) (\<lambda>fn.
     bindp (lift (subscript fn ''name'')) (\<lambda>tool_name.
     bindp (lift (subscript fn ''arguments'')) (\<lambda>raw.
     bindp (lift (json_loads env raw)) (\<lambda>arguments.
     bindp (execute_tool env tool_name arguments) (\<lambda>tool_result.
     bindp (lift (subscript tool_call ''id'')) (\<lambda>call_id.
       ret (tool_result, messages @ [AssistantMsg tool_call, ToolMsg call_id tool_result])))))))"

fun run_tool_calls ::
  "('w, 'idx) env \<Rightarrow> json list \<Rightarrow> string option \<Rightarrow> message list
     \<Rightarrow> (string option \<times> message list, ('w, 'idx) state) prog" where
  "run_tool_calls env [] context messages s = (Inr (context, messages), s)"
| "run_tool_calls env (tool_call # rest) context messages s =
     (case tool_call_step env tool_call messages s of
        (Inl e, s') \<Rightarrow> (Inl e, s')
      | (Inr (tool_result, messages'), s') \<Rightarrow>
          run_tool_calls env rest (Some tool_result) messages' s')"

text \<open>How one round of the \<^verbatim>\<open>while\<close> loop ends.\<close>

datatype step =
    Continue "message list" "string option"
  | Break "message list" "string option"
  | Return json

text \<open>
  The part of a round under \<^verbatim>\<open>if context:\<close>.  \<^verbatim>\<open>context\<close> is \<^verbatim>\<open>None\<close> or a string, and the test
  holds for a string that is not empty.
\<close>

definition critic_step ::
  "('w, 'idx) env \<Rightarrow> string \<Rightarrow> message list \<Rightarrow> string option
     \<Rightarrow> (step, ('w, 'idx) state) prog" where
  "critic_step env user_query messages context =
     (case context of
        None \<Rightarrow> ret (Continue messages context)
      | Some c \<Rightarrow>
          if c = [] then ret (Continue messages context)
          else
            bindp (critic_evaluate env user_query c) (\<lambda>critic_result.
            bindp (lift (dict_get critic_result ''decision'' (JStr ''sufficient''))) (\<lambda>decision.
              if decision = JStr ''sufficient'' then ret (Break messages context)
              else
                bindp (lift (dict_get critic_result ''refined_query'' JNull)) (\<lambda>refined_query.
                  if decision = JStr ''needs_refinement'' \<and> truthy refined_query then
                    ret (Continue
                      (messages @ [UserMsg (''The previous search wasn't quite right. Please search again with this refined query: ''
                                             @ py_str env refined_query)])
                      context)
                  else
                    ret (Continue
                      (messages @ [UserMsg ''The retrieved information wasn't sufficient. Please try a broader or different search.''])
                      context)))))"

definition agent_iteration ::
  "('w, 'idx) env \<Rightarrow> string \<Rightarrow> message list \<Rightarrow> string option
     \<Rightarrow> (step, ('w, 'idx) state) prog" where
  "agent_iteration env user_query messages context =
     bindp (azure_chat_with_tools env messages TOOLS AGENT_SYSTEM_PROMPT) (\<lambda>response.
     bindp (lift (dict_get response ''tool_calls'' (JArr []))) (\<lambda>tool_calls.
       if truthy tool_calls then
         bindp (lift (py_iter tool_calls)) (\<lambda>calls.
         bindp (run_tool_calls env calls context messages) (\<lambda>(context', messages').
           critic_step env user_query messages' context'))
       else
         bindp (lift (dict_get response ''content'' (JStr ''I couldn't find relevant information.'')))
           (\<lambda>content. ret (Return content))))"

datatype loop_exit =
    Returned json
  | Fallthrough "message list" "string option"

function agent_loop ::
  "('w, 'idx) env \<Rightarrow> string \<Rightarrow> int \<Rightarrow> int \<Rightarrow> message list \<Rightarrow> string option
     \<Rightarrow> (loop_exit, ('w, 'idx) state) prog" where
  "agent_loop env user_query max_iterations iteration messages context s =
     (if iteration < max_iterations then
        (case agent_iteration env user_query messages context s of
           (Inl e, s') \<Rightarrow> (Inl e, s')
         | (Inr (Return v), s') \<Rightarrow> (Inr (Returned v), s')
         | (Inr (Break m c), s') \<Rightarrow> (Inr (Fallthrough m c), s')
         | (Inr (Continue m c), s') \<Rightarrow>
             agent_loop env user_query max_iterations (iteration + 1) m c s')
      else (Inr (Fallthrough messages context), s))"
  by pat_completeness auto
termination
  by (relation "measure (\<lambda>(env, q, mx, it, m, c, s). nat (mx - it))") auto

declare agent_loop.simps [simp del]

definition final_prompt :: "string \<Rightarrow> string option \<Rightarrow> string" where
  "final_prompt user_query context =
     ''Based on the retrieved information, provide a comprehensive answer to the user's question.\<newline>    \<newline>User Question: ''
       @ user_query @ ''\<newline>\<newline>Retrieved Context:\<newline>''
       @ (case context of
            None \<Rightarrow> ''No context retrieved.''
          | Some c \<Rightarrow> if c = [] then ''No context retrieved.'' else c)
       @ ''\<newline>\<newline>Provide a detailed answer with proper citations.''"

text \<open>
  The final call passes no \<^verbatim>\<open>tools\<close> (the parameter's default \<^verbatim>\<open>None\<close>, here the empty list:
  \<^verbatim>\<open>azure_chat_with_tools\<close> tests \<^verbatim>\<open>if tools:\<close> only).
\<close>

definition agentic_rag ::
  "('w, 'idx) env \<Rightarrow> string \<Rightarrow> int \<Rightarrow> (json, ('w, 'idx) state) prog" where
  "agentic_rag env user_query max_iterations =
     bindp (agent_loop env user_query max_iterations 0 [UserMsg user_query] None) (\<lambda>ex.
       case ex of
         Returned v \<Rightarrow> ret v
       | Fallthrough messages context \<Rightarrow>
           bindp (azure_chat_with_tools env (messages @ [UserMsg (final_prompt user_query context)])
                    [] AGENT_SYSTEM_PROMPT) (\<lambda>final_response.
             lift (dict_get final_response ''content'' (JStr ''Unable to generate response.''))))"

section \<open>A decoder and scripted collaborators for concrete runs\<close>

text \<open>
  A decoder for the texts without escape sequences, fractions and exponents: objects, arrays,
  strings of plain characters, integers, \<^verbatim>\<open>true\<close>, \<^verbatim>\<open>false\<close>, \<^verbatim>\<open>null\<close> and the three constants
  \<^verbatim>\<open>NaN\<close>, \<^verbatim>\<open>Infinity\<close>, \<^verbatim>\<open>-Infinity\<close> that \<^verbatim>\<open>json.loads\<close> accepts beyond JSON.  On short texts of
  this kind it returns what \<^verbatim>\<open>json.loads\<close> returns, a repeated key keeping its first place and
  its last value, and \<open>None\<close> where \<^verbatim>\<open>json.loads\<close> raises JSONDecodeError.  The fuel bounds the
  nesting depth, and the length of the text is enough of it.
\<close>

definition json_ws :: "char \<Rightarrow> bool" where
  "json_ws c = (c \<in> {CHR 0x20, CHR 0x09, CHR 0x0A, CHR 0x0D})"

definition skip_ws :: "string \<Rightarrow> string" where
  "skip_ws s = dropWhile json_ws s"

fun scan_string :: "string \<Rightarrow> (string \<times> string) option" where
  "scan_string [] = None"
| "scan_string (c # cs) =
     (if c = CHR 0x22 then Some ([], cs)
      else if c = CHR 0x5C \<or> of_char c < (32 :: nat) then None
      else (case scan_string cs of None \<Rightarrow> None | Some (t, r) \<Rightarrow> Some (c # t, r)))"

definition is_digit :: "char \<Rightarrow> bool" where
  "is_digit c = (48 \<le> (of_char c :: nat) \<and> (of_char c :: nat) \<le> 57)"

definition digits_value :: "string \<Rightarrow> nat" where
  "digits_value ds = foldl (\<lambda>acc c. 10 * acc + (of_char c - 48)) 0 ds"

definition scan_nat :: "string \<Rightarrow> (nat \<times> string) option" where
  "scan_nat s =
     (let ds = takeWhile is_digit s; r = dropWhile is_digit s in
      if ds = [] \<or> (length ds > 1 \<and> hd ds = CHR ''0'') then None
      else if r \<noteq> [] \<and> hd r \<in> {CHR ''.'', CHR ''e'', CHR ''E''} then None
      else Some (digits_value ds, r))"

definition scan_int :: "string \<Rightarrow> (json \<times> string) option" where
  "scan_int s =
     (case s of
        [] \<Rightarrow> None
      | c # cs \<Rightarrow>
          if c = CHR ''-'' then
            (case scan_nat cs of None \<Rightarrow> None | Some (n, r) \<Rightarrow> Some (JInt (- int n), r))
          else (case scan_nat s of None \<Rightarrow> None | Some (n, r) \<Rightarrow> Some (JInt (int n), r)))"

definition add_member :: "string \<Rightarrow> json \<Rightarrow> (string \<times> json) list \<Rightarrow> (string \<times> json) list" where
  "add_member k v kvs =
     (case map_of kvs k of
        None \<Rightarrow> (k, v) # kvs
      | Some v' \<Rightarrow> (k, v') # AList.delete k kvs)"

fun parse_value :: "nat \<Rightarrow> string \<Rightarrow> (json \<times> string) option"
and parse_elems :: "nat \<Rightarrow> string \<Rightarrow> (json list \<times> string) option"
and parse_members :: "nat \<Rightarrow> string \<Rightarrow> ((string \<times> json) list \<times> string) option" where
  "parse_value 0 s = None"
| "parse_value (Suc n) [] = None"
| "parse_value (Suc n) (c # cs) =
     (if c = CHR ''{'' then
        (if take 1 (skip_ws cs) = ''}'' then Some (JObj [], drop 1 (skip_ws cs))
         else (case parse_members n (skip_ws cs) of
                 None \<Rightarrow> None
               | Some (kvs, r) \<Rightarrow> Some (JObj kvs, r)))
      else if c = CHR ''['' then
        (if take 1 (skip_ws cs) = '']'' then Some (JArr [], drop 1 (skip_ws cs))
         else (case parse_elems n (skip_ws cs) of
                 None \<Rightarrow> None
               | Some (xs, r) \<Rightarrow> Some (JArr xs, r)))
      else if c = CHR 0x22 then
        (case scan_string cs of None \<Rightarrow> None | Some (t, r) \<Rightarrow> Some (JStr t, r))
      else if take 4 (c # cs) = ''true'' then Some (JBool True, drop 4 (c # cs))
      else if take 5 (c # cs) = ''false'' then Some (JBool False, drop 5 (c # cs))
      else if take 4 (c # cs) = ''null'' then Some (JNull, drop 4 (c # cs))
      else if take 3 (c # cs) = ''NaN'' then Some (JFloat NotANumber, drop 3 (c # cs))
      else if take 8 (c # cs) = ''Infinity'' then Some (JFloat PosInf, drop 8 (c # cs))
      else if take 9 (c # cs) = ''-Infinity'' then Some (JFloat NegInf, drop 9 (c # cs))
      else scan_int (c # cs))"
| "parse_elems 0 s = None"
| "parse_elems (Suc n) s =
     (case parse_value n s of
        None \<Rightarrow> None
      | Some (v, r) \<Rightarrow>
          (if take 1 (skip_ws r) = '']'' then Some ([v], drop 1 (skip_ws r))
           else if take 1 (skip_ws r) = '','' then
             (case parse_elems n (skip_ws (drop 1 (skip_ws r))) of
                None \<Rightarrow> None
              | Some (vs, r') \<Rightarrow> Some (v # vs, r'))
           else None))"
| "parse_members 0 s = None"
| "parse_members (Suc n) s =
     (if take 1 s \<noteq> [CHR 0x22] then None
      else case scan_string (drop 1 s) of
        None \<Rightarrow> None
      | Some (k, r) \<Rightarrow>
          (if take 1 (skip_ws r) \<noteq> '':'' then None
           else case parse_value n (skip_ws (drop 1 (skip_ws r))) of
             None \<Rightarrow> None
           | Some (v, r') \<Rightarrow>
               (if take 1 (skip_ws r') = ''}'' then Some ([(k, v)], drop 1 (skip_ws r'))
                else if take 1 (skip_ws r') = '','' then
                  (case parse_members n (skip_ws (drop 1 (skip_ws r'))) of
                     None \<Rightarrow> None
                   | Some (kvs, r'') \<Rightarrow> Some (add_member k v kvs, r''))
                else None)))"

definition decode_plain :: "string \<Rightarrow> json option" where
  "decode_plain s =
     (case parse_value (length s) (skip_ws s) of
        None \<Rightarrow> None
      | Some (v, r) \<Rightarrow> if skip_ws r = [] then Some v else None)"

text \<open>
  The decoder of the scripted runs: the value, or JSONDecodeError where there is none.  It
  stands for \<^verbatim>\<open>json.loads\<close> on the short texts described above only; a text with a fraction, an
  exponent or an escape sequence, nesting deep enough for RecursionError and an integer long
  enough for ValueError are outside it.
\<close>

definition loads_plain :: "string \<Rightarrow> py_error + json" where
  "loads_plain s = (case decode_plain s of None \<Rightarrow> Inl JSONDecodeError | Some v \<Rightarrow> Inr v)"

text \<open>Python's \<^verbatim>\<open>str()\<close> of \<^verbatim>\<open>None\<close>, of a boolean and of an integer; other values are not rendered.\<close>

definition str_plain :: "json \<Rightarrow> string" where
  "str_plain v =
     (case v of
        JNull \<Rightarrow> ''None''
      | JBool b \<Rightarrow> (if b then ''True'' else ''False'')
      | JInt i \<Rightarrow> (if i < 0 then ''-'' @ show_nat (nat (- i)) else show_nat (nat i))
      | _ \<Rightarrow> [])"

text \<open>
  Scripted collaborators: the gateway answers from two lists of prepared outcomes, one for each
  capability, and raises once a list is used up; the index is a fixed ranking of labels, of
  which a search for \<open>k > 0\<close> returns the first \<open>k\<close>, padded with the label \<open>-1\<close> as FAISS pads.
\<close>

record script =
  tool_replies :: "(py_error + json) list"
  chat_replies :: "(py_error + json) list"

definition next_chat :: "script \<Rightarrow> (py_error + json) \<times> script" where
  "next_chat w =
     (case chat_replies w of
        [] \<Rightarrow> (Inl HTTPError, w)
      | r # rs \<Rightarrow> (r, w\<lparr>chat_replies := rs\<rparr>))"

definition next_tools :: "script \<Rightarrow> (py_error + json) \<times> script" where
  "next_tools w =
     (case tool_replies w of
        [] \<Rightarrow> (Inl HTTPError, w)
      | r # rs \<Rightarrow> (r, w\<lparr>tool_replies := rs\<rparr>))"

definition ranked_search :: "(real \<times> int) list \<Rightarrow> json \<Rightarrow> py_error + (real \<times> int) list" where
  "ranked_search ranking top_k =
     (case top_k of
        JInt k \<Rightarrow>
          if 0 < k then Inr (take (nat k) (ranking @ replicate (nat k) (0, - 1)))
          else Inl (OtherError ''AssertionError'')
      | _ \<Rightarrow> Inl TypeError)"

definition scripted_env :: "json \<Rightarrow> (script, (real \<times> int) list) env" where
  "scripted_env metadata =
     \<lparr>loads = loads_plain,
      str_other = str_plain,
      chat_completion = (\<lambda>prompt system_prompt. next_chat),
      tools_completion = (\<lambda>messages tools system_prompt. next_tools),
      embedding = (\<lambda>txt w. (Inr [], w)),
      read_index = (\<lambda>w. (Inr ([(0, 0), (1, 1)], metadata), w)),
      faiss_search = (\<lambda>index query_np top_k w. (ranked_search index top_k, w))\<rparr>"

definition start :: "(py_error + json) list \<Rightarrow> (py_error + json) list \<Rightarrow> (script, (real \<times> int) list) state" where
  "start tools_script chat_script =
     \<lparr>world = \<lparr>tool_replies = tools_script, chat_replies = chat_script\<rparr>,
      index_cache = None,
      events = []\<rparr>"

section \<open>Vocabulary of the properties\<close>

text \<open>A text whose first and last characters, white space aside, are the braces of an object.\<close>

definition is_object_text :: "string \<Rightarrow> bool" where
  "is_object_text j = (strip j \<noteq> [] \<and> hd (strip j) = CHR ''{'' \<and> last (strip j) = CHR ''}'')"

definition is_object :: "json \<Rightarrow> bool" where
  "is_object v = (case v of JObj _ \<Rightarrow> True | _ \<Rightarrow> False)"

text \<open>
  The calls a run has made are read off the state: what a program appends to \<open>events\<close>.  A
  tool-augmented call of the loop passes \<open>TOOLS\<close>, the synthesis call passes no tools.
\<close>

definition trace :: "('a, ('w, 'idx) state) prog \<Rightarrow> ('w, 'idx) state \<Rightarrow> event list" where
  "trace p s = drop (length (events s)) (events (snd (p s)))"

fun is_tool_chat :: "event \<Rightarrow> bool" where
  "is_tool_chat (ToolChat m t r) = True"
| "is_tool_chat _ = False"

fun is_round :: "event \<Rightarrow> bool" where
  "is_round (ToolChat m t r) = (t \<noteq> [])"
| "is_round _ = False"

fun is_synthesis :: "event \<Rightarrow> bool" where
  "is_synthesis (ToolChat m t r) = (t = [])"
| "is_synthesis _ = False"

fun is_critic_call :: "event \<Rightarrow> bool" where
  "is_critic_call (Chat p sp r) = True"
| "is_critic_call _ = False"

fun is_retrieval :: "event \<Rightarrow> bool" where
  "is_retrieval (Embed q) = True"
| "is_retrieval (IndexSearch k) = True"
| "is_retrieval LoadIndex = True"
| "is_retrieval _ = False"

fun verdicts :: "event list \<Rightarrow> json list" where
  "verdicts [] = []"
| "verdicts (Verdict v # evs) = v # verdicts evs"
| "verdicts (e # evs) = verdicts evs"

definition rounds :: "event list \<Rightarrow> nat" where
  "rounds evs = length (filter is_round evs)"

definition syntheses :: "event list \<Rightarrow> nat" where
  "syntheses evs = length (filter is_synthesis evs)"

definition critic_calls :: "event list \<Rightarrow> nat" where
  "critic_calls evs = length (filter is_critic_call evs)"

text \<open>The orchestrator's reading of a verdict: \<^verbatim>\<open>critic_result.get("decision", "sufficient")\<close>.\<close>

definition approves :: "json \<Rightarrow> bool" where
  "approves v = (dict_get v ''decision'' (JStr ''sufficient'') = Inr (JStr ''sufficient''))"

text \<open>A program that calls the retriever's collaborators only.\<close>

definition retrieval_only :: "('a, ('w, 'idx) state) prog \<Rightarrow> bool" where
  "retrieval_only p =
     (\<forall>s. events (snd (p s)) = events s @ trace p s \<and> list_all is_retrieval (trace p s))"

text \<open>How a round ends, against the verdicts it obtained.\<close>

fun round_outcome :: "py_error + step \<Rightarrow> json list \<Rightarrow> bool" where
  "round_outcome (Inr (Break m c)) vs = (case vs of [v] \<Rightarrow> approves v | _ \<Rightarrow> False)"
| "round_outcome (Inr (Continue m c)) vs = (case vs of [v] \<Rightarrow> \<not> approves v | _ \<Rightarrow> False)"
| "round_outcome (Inr (Return x)) vs = (vs = [])"
| "round_outcome (Inl e) vs = (vs = [])"

text \<open>
  How the loop ends, against the rounds it ran, the verdicts it obtained and the rounds that
  were left to it: it falls through to the synthesis after an approving verdict or with its
  budget used up, each round having obtained a verdict; otherwise its last round obtained none.
\<close>

fun loop_outcome :: "py_error + loop_exit \<Rightarrow> nat \<Rightarrow> json list \<Rightarrow> nat \<Rightarrow> bool" where
  "loop_outcome (Inr (Fallthrough m c)) budget vs n =
     (length vs = n \<and> ((vs \<noteq> [] \<and> approves (last vs)) \<or> n = budget))"
| "loop_outcome (Inr (Returned x)) budget vs n =
     (n = Suc (length vs) \<and> list_all (\<lambda>v. \<not> approves v) vs)"
| "loop_outcome (Inl e) budget vs n =
     (n = Suc (length vs) \<and> list_all (\<lambda>v. \<not> approves v) vs)"

text \<open>
  The rounds a run comes to: the loop starts round 0 on the query alone, and comes from a round
  it may still run and that ends asking for another search to the next round, with the messages,
  the context and the state that round leaves.
\<close>

inductive loop_reaches ::
  "('w, 'idx) env \<Rightarrow> string \<Rightarrow> int \<Rightarrow> ('w, 'idx) state
     \<Rightarrow> int \<Rightarrow> message list \<Rightarrow> string option \<Rightarrow> ('w, 'idx) state \<Rightarrow> bool"
  for env :: "('w, 'idx) env" and q :: string and mx :: int and s0 :: "('w, 'idx) state" where
    first_round: "loop_reaches env q mx s0 0 [UserMsg q] None s0"
  | next_round:
      "loop_reaches env q mx s0 it m c s \<Longrightarrow> it < mx \<Longrightarrow>
       agent_iteration env q m c s = (Inr (Continue m' c'), s') \<Longrightarrow>
       loop_reaches env q mx s0 (it + 1) m' c' s'"


text \<open>
  The queries a program has embedded and the bounds it has passed to the index, in the order
  of the calls.
\<close>

fun embedded :: "event list \<Rightarrow> json list" where
  "embedded [] = []"
| "embedded (Embed x # evs) = x # embedded evs"
| "embedded (e # evs) = embedded evs"

fun search_bounds :: "event list \<Rightarrow> json list" where
  "search_bounds [] = []"
| "search_bounds (IndexSearch k # evs) = k # search_bounds evs"
| "search_bounds (e # evs) = search_bounds evs"

text \<open>
  What \<^verbatim>\<open>search\<close> of a FAISS index answers for one query vector and the bound \<open>k\<close>: one row of
  \<open>k\<close> distances and \<open>k\<close> labels, the places without a neighbour holding the label \<open>-1\<close>.  The
  library is not part of the sources; the bound on the passages is proved from this.
\<close>

definition faiss_returns_top_k :: "('w, 'idx) env \<Rightarrow> bool" where
  "faiss_returns_top_k env =
     (\<forall>index v k w found w'.
        faiss_search env index v (JInt k) w = (Inr found, w') \<longrightarrow> length found = nat k)"

section \<open>Concrete runs\<close>

text \<open>
  The scenario of the specification: the index holds two passages of \<^verbatim>\<open>sp800-207.pdf\<close>, pages 3
  and 7; the model asks for a search, and answers from what it is given.
\<close>

definition nist_metadata :: json where
  "nist_metadata =
     JArr [JObj [(''chunk_id'', JStr ''sp800-207_p3_c0''), (''filename'', JStr ''sp800-207.pdf''),
                 (''page_num'', JInt 3), (''text'', JStr ''Zero trust assumes no implicit trust.'')],
           JObj [(''chunk_id'', JStr ''sp800-207_p7_c0''), (''filename'', JStr ''sp800-207.pdf''),
                 (''page_num'', JInt 7), (''text'', JStr ''Access is granted per session.'')]]"

definition zero_trust_query :: string where
  "zero_trust_query = ''What is zero trust architecture according to NIST?''"

definition search_call :: json where
  \<open>search_call =
     JObj [(''id'', JStr ''call_1''), (''type'', JStr ''function''),
           (''function'', JObj [(''name'', JStr ''search_nist_knowledge''),
                                (''arguments'', JStr ''{"query": "zero trust architecture", "top_k": 2}'')])]\<close>

definition search_reply :: json where
  "search_reply =
     JObj [(''role'', JStr ''assistant''), (''content'', JNull), (''tool_calls'', JArr [search_call])]"

definition direct_reply :: json where
  "direct_reply = JObj [(''role'', JStr ''assistant''), (''content'', JStr ''Zero trust is a security model.'')]"

definition verdict_sufficient :: json where
  \<open>verdict_sufficient = JStr ''{"decision": "sufficient", "reasoning": "on topic", "refined_query": null}''\<close>

definition verdict_insufficient :: json where
  \<open>verdict_insufficient = JStr ''{"decision": "insufficient", "reasoning": "off topic", "refined_query": null}''\<close>

text \<open>The context the two passages render to.\<close>

definition nist_context :: string where
  "nist_context =
     ''[Source 1] [sp800-207.pdf, Page 3]\<newline>Zero trust assumes no implicit trust.\<newline>\<newline>---\<newline>[Source 2] [sp800-207.pdf, Page 7]\<newline>Access is granted per session.\<newline>''"

text \<open>A call of a tool that is not registered, a call whose arguments are cut off, a reply
  carrying two calls, and a verdict without a decision.\<close>

definition unknown_call :: json where
  \<open>unknown_call =
     JObj [(''id'', JStr ''call_0''), (''type'', JStr ''function''),
           (''function'', JObj [(''name'', JStr ''does_not_exist''), (''arguments'', JStr ''{}'')])]\<close>

definition truncated_call :: json where
  \<open>truncated_call =
     JObj [(''id'', JStr ''call_2''), (''type'', JStr ''function''),
           (''function'', JObj [(''name'', JStr ''search_nist_knowledge''),
                                (''arguments'', JStr ''{"query": "zero tr'')])]\<close>

definition two_call_reply :: json where
  "two_call_reply =
     JObj [(''role'', JStr ''assistant''), (''content'', JNull),
           (''tool_calls'', JArr [unknown_call, search_call])]"

definition verdict_undecided :: json where
  \<open>verdict_undecided = JStr ''{"reasoning": "covers the question"}''\<close>


text \<open>A call whose arguments are the text \<^verbatim>\<open>NaN\<close>, which is not JSON and which \<^verbatim>\<open>json.loads\<close>
  decodes to a float, the same for a tool that is not registered, and a verdict without a
  decision whose reasoning is \<^verbatim>\<open>null\<close>.\<close>

definition nan_call :: json where
  "nan_call =
     JObj [(''id'', JStr ''call_3''), (''type'', JStr ''function''),
           (''function'', JObj [(''name'', JStr ''search_nist_knowledge''),
                                (''arguments'', JStr ''NaN'')])]"

definition nan_unknown_call :: json where
  "nan_unknown_call =
     JObj [(''id'', JStr ''call_4''), (''type'', JStr ''function''),
           (''function'', JObj [(''name'', JStr ''does_not_exist''),
                                (''arguments'', JStr ''NaN'')])]"

definition verdict_null_reasoning :: json where
  \<open>verdict_null_reasoning = JStr ''{"reasoning": null}''\<close>

section \<open>Sequencing\<close>

lemma bindp_ret [simp]: "bindp (ret x) f s = f x s"
  by (simp add: bindp_def ret_def)

lemma bindp_lift_Inr [simp]: "bindp (lift (Inr x)) f s = f x s"
  by (simp add: bindp_def lift_def)

lemma bindp_lift_Inl [simp]: "bindp (lift (Inl e)) f s = (Inl e, s)"
  by (simp add: bindp_def lift_def)

lemma bindp_cases:
  assumes "bindp m f s = (r, s')"
  obtains (raised) e where "m s = (Inl e, s')" and "r = Inl e"
        | (passed) x s1 where "m s = (Inr x, s1)" and "f x s1 = (r, s')"
  using assms by (auto simp: bindp_def split: prod.splits sum.splits)

section \<open>White space and fences\<close>

lemma strip_fixed:
  assumes "s \<noteq> []" "\<not> py_isspace (hd s)" "\<not> py_isspace (last s)"
  shows "strip s = s"
proof -
  have "dropWhile py_isspace s = s"
    using assms by (cases s) auto
  moreover have "dropWhile py_isspace (rev s) = rev s"
    using assms by (cases "rev s") (auto simp: hd_rev [symmetric])
  ultimately show ?thesis
    by (simp add: strip_def)
qed

lemma strip_pad:
  assumes pre: "\<forall>c \<in> set pre. py_isspace c" and post: "\<forall>c \<in> set post. py_isspace c"
  shows "strip (pre @ j @ post) = strip j"
proof -
  have front: "dropWhile py_isspace (pre @ j @ post) = dropWhile py_isspace (j @ post)"
    by (rule dropWhile_append2) (use pre in auto)
  show ?thesis
  proof (cases "\<forall>c \<in> set j. py_isspace c")
    case True
    then have "\<forall>c \<in> set (j @ post). py_isspace c"
      using post by auto
    then have jp: "dropWhile py_isspace (j @ post) = []"
      by (rule iffD2 [OF dropWhile_eq_Nil_conv])
    have jj: "dropWhile py_isspace j = []"
      using True by (rule iffD2 [OF dropWhile_eq_Nil_conv])
    show ?thesis
      unfolding strip_def front jp jj by (rule refl)
  next
    case False
    then obtain c where "c \<in> set j" "\<not> py_isspace c"
      by blast
    then have "dropWhile py_isspace (j @ post) = dropWhile py_isspace j @ post"
      by (rule dropWhile_append1)
    moreover have "dropWhile py_isspace (rev post @ ys) = dropWhile py_isspace ys" for ys
      by (rule dropWhile_append2) (use post in auto)
    ultimately show ?thesis
      using front by (simp add: strip_def)
  qed
qed

lemma strip_ends:
  assumes "strip s \<noteq> []"
  shows "\<not> py_isspace (hd (strip s))" and "\<not> py_isspace (last (strip s))"
proof -
  let ?a = "dropWhile py_isspace s"
  let ?b = "dropWhile py_isspace (rev ?a)"
  have b: "?b \<noteq> []"
    using assms by (simp add: strip_def)
  then have hb: "\<not> py_isspace (hd ?b)"
    by (rule hd_dropWhile)
  then show "\<not> py_isspace (last (strip s))"
    using b by (simp add: strip_def last_rev)
  have a: "?a \<noteq> []"
  proof
    assume "?a = []"
    then have "?b = []" by (simp only: rev.simps dropWhile.simps)
    with b show False by (rule notE)
  qed
  then have ha: "\<not> py_isspace (hd ?a)"
    by (rule hd_dropWhile)
  have "last ?b = last (rev ?a)"
    using b by (metis last_appendR takeWhile_dropWhile_id)
  then have "hd (strip s) = hd ?a"
    using a b by (simp add: strip_def hd_rev last_rev)
  then show "\<not> py_isspace (hd (strip s))"
    using ha by simp
qed

lemma strip_strip: "strip (strip s) = strip s"
proof (cases "strip s = []")
  case True
  have e: "strip [] = []" by (simp add: strip_def)
  show ?thesis unfolding True e by (rule refl)
next
  case False
  then show ?thesis by (intro strip_fixed strip_ends)
qed

lemma endswith_fence: "endswith (x @ ''```'') ''```''"
  by (simp add: endswith_def)

lemma cleaned_json_fence:
  assumes "strip r = r" and "startswith r ''```json''" and "drop 7 r = x @ ''```''"
  shows "cleaned_response r = strip x"
  using assms endswith_fence [of x] by (simp add: cleaned_response_def Let_def)

lemma cleaned_plain_fence:
  assumes "strip r = r" and "\<not> startswith r ''```json''" and "startswith r ''```''"
    and "drop 3 r = x @ ''```''"
  shows "cleaned_response r = strip x"
  using assms endswith_fence [of x] by (simp add: cleaned_response_def Let_def)

lemma startswith_json_fence: "startswith c ''```json'' \<Longrightarrow> startswith c ''```''"
proof -
  have l7: "length ''```json'' = 7" and l3: "length ''```'' = 3"
    by simp_all
  assume "startswith c ''```json''"
  then have "take 7 c = ''```json''"
    unfolding startswith_def l7 .
  then have "take 3 (take 7 c) = take 3 ''```json''"
    by (rule arg_cong)
  then have "take 3 c = ''```''"
    by (simp add: take_take)
  then show ?thesis
    unfolding startswith_def l3 .
qed

lemma cleaned_no_fence:
  assumes "\<not> startswith (strip r) ''```''" and "\<not> endswith (strip r) ''```''"
  shows "cleaned_response r = strip r"
  using assms startswith_json_fence [of "strip r"]
  by (auto simp: cleaned_response_def Let_def strip_strip)

lemma startswith_hd: "startswith c (x # p) \<Longrightarrow> c \<noteq> [] \<and> hd c = x"
  by (cases c) (auto simp: startswith_def)

lemma endswith_last: "endswith c p \<Longrightarrow> p \<noteq> [] \<Longrightarrow> c \<noteq> [] \<and> last c = last p"
  by (metis endswith_def drop_eq_Nil last_drop not_less list.size(3) le_zero_eq length_0_conv)

lemma object_text_no_fence:
  assumes "is_object_text j"
  shows "cleaned_response j = strip j"
proof (rule cleaned_no_fence)
  show "\<not> startswith (strip j) ''```''"
    using assms startswith_hd [of "strip j" "CHR 0x60" "''``''"] by (auto simp: is_object_text_def)
  show "\<not> endswith (strip j) ''```''"
    using assms endswith_last [of "strip j" "''```''"] by (auto simp: is_object_text_def)
qed

lemma object_text_hd:
  assumes "is_object_text j" and "\<forall>c \<in> set pre. py_isspace c"
  shows "hd (pre @ j @ rest) \<noteq> CHR ''j''"
proof (cases pre)
  case (Cons a as)
  then have "py_isspace a" using assms(2) by simp
  then show ?thesis using Cons by (auto simp: py_isspace_def)
next
  case Nil
  from assms(1) have "strip j \<noteq> []" by (simp add: is_object_text_def)
  then have jne: "j \<noteq> []" by (auto simp: strip_def)
  show ?thesis
  proof (cases "py_isspace (hd j)")
    case True
    then show ?thesis using Nil jne by (auto simp: py_isspace_def)
  next
    case False
    then have "dropWhile py_isspace j = j" using jne by (cases j) auto
    then have "hd (strip j) = hd j"
      using strip_pad [of "[]" "[]" j] jne False
      by (metis (no_types) assms(1) is_object_text_def strip_def hd_rev last_rev rev_rev_ident hd_dropWhile takeWhile_dropWhile_id last_appendR dropWhile_eq_Nil_conv rev_is_Nil_conv)
    then show ?thesis using Nil jne assms(1) by (auto simp: is_object_text_def)
  qed
qed

section \<open>What each operation appends to the record of calls\<close>

lemma retrieval_onlyI:
  assumes "\<And>s r s'. p s = (r, s') \<Longrightarrow> \<exists>evs. events s' = events s @ evs \<and> list_all is_retrieval evs"
  shows "retrieval_only p"
  unfolding retrieval_only_def trace_def
proof (intro allI)
  fix s
  obtain r s' where run: "p s = (r, s')"
    by (cases "p s")
  from assms [OF run] obtain evs where "events s' = events s @ evs" "list_all is_retrieval evs"
    by blast
  then show "events (snd (p s)) = events s @ drop (length (events s)) (events (snd (p s)))
             \<and> list_all is_retrieval (drop (length (events s)) (events (snd (p s))))"
    using run by simp
qed

lemma retrieval_onlyD:
  assumes "retrieval_only p" and "p s = (r, s')"
  shows "\<exists>evs. events s' = events s @ evs \<and> list_all is_retrieval evs"
  using assms unfolding retrieval_only_def by (metis snd_conv)

lemma retrieval_only_ret [simp]: "retrieval_only (ret x)"
  by (rule retrieval_onlyI) (simp add: ret_def)

lemma retrieval_only_lift [simp]: "retrieval_only (lift r)"
  by (rule retrieval_onlyI) (simp add: lift_def)

lemma retrieval_only_bindp:
  assumes "retrieval_only m" and "\<And>x. retrieval_only (f x)"
  shows "retrieval_only (bindp m f)"
proof (rule retrieval_onlyI)
  fix s r s'
  assume "bindp m f s = (r, s')"
  then show "\<exists>evs. events s' = events s @ evs \<and> list_all is_retrieval evs"
  proof (cases rule: bindp_cases)
    case (raised e)
    then show ?thesis
      using retrieval_onlyD [OF assms(1)] by blast
  next
    case (passed x s1)
    from retrieval_onlyD [OF assms(1) passed(1)] obtain a
      where a: "events s1 = events s @ a" "list_all is_retrieval a" by blast
    from retrieval_onlyD [OF assms(2) passed(2)] obtain b
      where b: "events s' = events s1 @ b" "list_all is_retrieval b" by blast
    from a b have "events s' = events s @ (a @ b) \<and> list_all is_retrieval (a @ b)"
      by simp
    then show ?thesis by blast
  qed
qed

lemma retrieval_only_prod:
  assumes "\<And>a b. retrieval_only (f a b)"
  shows "retrieval_only (case x of (a, b) \<Rightarrow> f a b)"
  using assms by (cases x) simp

lemma retrieval_only_azure_embed: "retrieval_only (azure_embed env q)"
  by (rule retrieval_onlyI) (auto simp: azure_embed_def log_event_def split: prod.splits)

lemma retrieval_only_load_index: "retrieval_only (load_index env)"
  by (rule retrieval_onlyI) (auto simp: load_index_def log_event_def split: prod.splits)

lemma retrieval_only_index_search: "retrieval_only (index_search env index q k)"
  by (rule retrieval_onlyI) (auto simp: index_search_def log_event_def split: prod.splits)

lemma retrieval_only_get_index: "retrieval_only (get_index env)"
proof (rule retrieval_onlyI)
  fix s r s'
  assume run: "get_index env s = (r, s')"
  show "\<exists>evs. events s' = events s @ evs \<and> list_all is_retrieval evs"
  proof (cases "index_cache s")
    case (Some im)
    then have "s' = s" using run by (simp add: get_index_def)
    then show ?thesis by simp
  next
    case None
    obtain r1 s1 where l: "load_index env s = (r1, s1)"
      by (cases "load_index env s")
    from retrieval_onlyD [OF retrieval_only_load_index l] obtain evs
      where "events s1 = events s @ evs" "list_all is_retrieval evs" by blast
    moreover have "events s' = events s1"
      using run None l by (cases r1) (auto simp: get_index_def)
    ultimately show ?thesis by simp
  qed
qed

lemma retrieval_only_retrieve: "retrieval_only (retrieve env query top_k index metadata)"
  unfolding retrieve_def
  by (intro retrieval_only_bindp retrieval_only_prod retrieval_only_azure_embed
        retrieval_only_index_search retrieval_only_lift)
     (simp add: retrieval_only_load_index)

lemma retrieval_only_execute_tool: "retrieval_only (execute_tool env tool_name arguments)"
  unfolding execute_tool_def
  by (auto intro!: retrieval_only_bindp retrieval_only_prod retrieval_only_get_index
        retrieval_only_retrieve)

lemma retrieval_only_tool_call_step: "retrieval_only (tool_call_step env tool_call messages)"
  unfolding tool_call_step_def
  by (intro retrieval_only_bindp retrieval_only_lift retrieval_only_execute_tool
        retrieval_only_ret)

lemma retrieval_only_run_tool_calls: "retrieval_only (run_tool_calls env calls context messages)"
proof (induction calls arbitrary: "context" messages)
  case Nil
  show ?case by (rule retrieval_onlyI) simp
next
  case (Cons tool_call rest)
  show ?case
  proof (rule retrieval_onlyI)
    fix s r s'
    assume run: "run_tool_calls env (tool_call # rest) context messages s = (r, s')"
    obtain r1 s1 where st: "tool_call_step env tool_call messages s = (r1, s1)"
      by (cases "tool_call_step env tool_call messages s")
    from retrieval_onlyD [OF retrieval_only_tool_call_step st] obtain a
      where a: "events s1 = events s @ a" "list_all is_retrieval a" by blast
    show "\<exists>evs. events s' = events s @ evs \<and> list_all is_retrieval evs"
    proof (cases r1)
      case (Inl e)
      then show ?thesis using run st a by auto
    next
      case (Inr tm)
      obtain tool_result messages' where tm: "tm = (tool_result, messages')"
        by (cases tm)
      have "run_tool_calls env rest (Some tool_result) messages' s1 = (r, s')"
        using run st Inr tm by simp
      from retrieval_onlyD [OF Cons.IH this] obtain b
        where "events s' = events s1 @ b" "list_all is_retrieval b" by blast
      with a have "events s' = events s @ (a @ b) \<and> list_all is_retrieval (a @ b)"
        by simp
      then show ?thesis by blast
    qed
  qed
qed

section \<open>Tool results and the context\<close>

lemma verdicts_append: "verdicts (a @ b) = verdicts a @ verdicts b"
  by (induction a rule: verdicts.induct) simp_all

lemma retrieval_no_verdicts: "list_all is_retrieval evs \<Longrightarrow> verdicts evs = []"
  by (induction evs rule: verdicts.induct) simp_all

lemma retrieval_filter:
  assumes "list_all is_retrieval evs"
  shows "filter is_tool_chat evs = []" and "filter is_round evs = []"
    and "filter is_synthesis evs = []" and "filter is_critic_call evs = []"
proof -
  have "\<not> is_tool_chat e \<and> \<not> is_round e \<and> \<not> is_synthesis e \<and> \<not> is_critic_call e"
    if "is_retrieval e" for e
    using that by (cases e) simp_all
  then show "filter is_tool_chat evs = []" and "filter is_round evs = []"
    and "filter is_synthesis evs = []" and "filter is_critic_call evs = []"
    using assms by (auto simp: list_all_iff filter_empty_conv)
qed

lemma join_nonempty:
  assumes "xs \<noteq> []" and "\<forall>x \<in> set xs. x \<noteq> []"
  shows "join sep xs \<noteq> []"
proof (cases xs)
  case Nil
  then show ?thesis using assms(1) by simp
next
  case (Cons x ys)
  then have "x \<noteq> []" using assms(2) by simp
  then show ?thesis using Cons by (cases ys) simp_all
qed

lemma format_context_nonempty [simp]: "format_context env results \<noteq> []"
proof (cases "results = []")
  case True
  then show ?thesis by (simp add: format_context_def)
next
  case False
  let ?z = "zip [1 ..< Suc (length results)] results"
  have "[1 ..< Suc (length results)] \<noteq> []"
    using False by (simp del: upt_Suc)
  then have z: "?z \<noteq> []"
    using False by (cases "[1 ..< Suc (length results)]"; cases results) simp_all
  show ?thesis
    unfolding format_context_def if_not_P [OF False]
  proof (rule join_nonempty)
    show "map (\<lambda>(i, r). ''[Source '' @ show_nat i @ ''] '' @ citation r @ ''\<newline>''
                               @ py_str env (chunk_text r) @ ''\<newline>'') ?z \<noteq> []"
      using z by (simp only: map_is_Nil_conv not_False_eq_True)
    show "\<forall>x \<in> set (map (\<lambda>(i, r). ''[Source '' @ show_nat i @ ''] '' @ citation r @ ''\<newline>''
                               @ py_str env (chunk_text r) @ ''\<newline>'') ?z). x \<noteq> []"
      by (auto simp del: upt_Suc)
  qed
qed

lemma execute_tool_nonempty:
  assumes "execute_tool env tool_name arguments s = (Inr tool_result, s')"
  shows "tool_result \<noteq> []"
proof (cases "tool_name = JStr ''search_nist_knowledge''")
  case False
  then show ?thesis
    using assms by (auto simp: execute_tool_def ret_def)
next
  case True
  then show ?thesis
    using assms
    by (auto simp: execute_tool_def ret_def elim!: bindp_cases split: prod.splits)
qed

text \<open>A completed pass over one or more tool calls leaves the last call's result as the context.\<close>

lemma tool_call_step_result:
  assumes "tool_call_step env tool_call messages s = (Inr (tool_result, messages'), s')"
  shows "tool_result \<noteq> []"
    and "\<exists>call_id. messages' = messages @ [AssistantMsg tool_call, ToolMsg call_id tool_result]"
proof -
  from assms obtain fn tool_name raw arguments s1 call_id where
    ex: "execute_tool env tool_name arguments s = (Inr tool_result, s1)"
    and m: "messages' = messages @ [AssistantMsg tool_call, ToolMsg call_id tool_result]"
    unfolding tool_call_step_def
    by (auto elim!: bindp_cases simp: lift_def ret_def)
  from ex show "tool_result \<noteq> []"
    by (rule execute_tool_nonempty)
  from m show "\<exists>call_id. messages' = messages @ [AssistantMsg tool_call, ToolMsg call_id tool_result]"
    by blast
qed

lemma run_tool_calls_context:
  assumes "run_tool_calls env calls ctx messages s = (Inr (ctx', messages'), s')"
    and "calls \<noteq> []"
  shows "\<exists>tool_result call_id before.
           ctx' = Some tool_result \<and> tool_result \<noteq> []
         \<and> messages' = before @ [AssistantMsg (last calls), ToolMsg call_id tool_result]"
  using assms
proof (induction calls arbitrary: ctx messages s)
  case Nil
  then show ?case by simp
next
  case (Cons tool_call rest)
  from Cons.prems(1) obtain tool_result m1 s1 where
    st: "tool_call_step env tool_call messages s = (Inr (tool_result, m1), s1)"
    and rec: "run_tool_calls env rest (Some tool_result) m1 s1 = (Inr (ctx', messages'), s')"
    by (auto split: prod.splits sum.splits)
  show ?case
  proof (cases rest)
    case Nil
    then show ?thesis
      using rec tool_call_step_result [OF st] by auto
  next
    case (Cons c cs)
    then show ?thesis
      using Cons.IH [OF rec] by simp
  qed
qed

section \<open>One round of the loop\<close>

lemma parse_verdict_object: "parse_verdict env response = Inr v \<Longrightarrow> is_object v"
  by (auto simp: parse_verdict_def fallback_verdict_def is_object_def dict_get_def
           split: option.splits json.splits sum.splits if_splits)

lemma critic_evaluate_events:
  assumes "critic_evaluate env q c s = (r, s')"
  shows "\<exists>reply. events s' = events s @ Chat (critic_prompt q c) CRITIC_SYSTEM_PROMPT reply
                        # (case r of Inr v \<Rightarrow> [Verdict v] | Inl e \<Rightarrow> [])"
    and "r = Inr v \<Longrightarrow> is_object v"
proof -
  obtain reply s1 where chat: "azure_chat env (critic_prompt q c) CRITIC_SYSTEM_PROMPT s = (reply, s1)"
    by (cases "azure_chat env (critic_prompt q c) CRITIC_SYSTEM_PROMPT s")
  then have ev1: "events s1 = events s @ [Chat (critic_prompt q c) CRITIC_SYSTEM_PROMPT reply]"
    by (auto simp: azure_chat_def log_event_def split: prod.splits)
  have "events s' = events s1 @ (case r of Inr v \<Rightarrow> [Verdict v] | Inl e \<Rightarrow> [])
        \<and> (r = Inr v \<longrightarrow> is_object v)"
  proof (cases reply)
    case (Inl e)
    then show ?thesis
      using assms chat by (auto simp: critic_evaluate_def bindp_def)
  next
    case reply_ok: (Inr response)
    show ?thesis
    proof (cases response)
      case (JStr text_reply)
      show ?thesis
      proof (cases "parse_verdict env text_reply")
        case (Inl e)
        have "r = Inl e \<and> s' = s1"
          using assms chat reply_ok JStr Inl
          by (auto simp: critic_evaluate_def bindp_def lift_def)
        then show ?thesis by simp
      next
        case (Inr result)
        have "r = Inr result \<and> events s' = events s1 @ [Verdict result]"
          using assms chat reply_ok JStr Inr
          by (auto simp: critic_evaluate_def bindp_def lift_def log_event_def)
        then show ?thesis
          using parse_verdict_object [OF Inr] by auto
      qed
    qed (use assms chat reply_ok in \<open>auto simp: critic_evaluate_def bindp_def lift_def\<close>)
  qed
  then show "\<exists>reply. events s' = events s @ Chat (critic_prompt q c) CRITIC_SYSTEM_PROMPT reply
                        # (case r of Inr v \<Rightarrow> [Verdict v] | Inl e \<Rightarrow> [])"
    and "r = Inr v \<Longrightarrow> is_object v"
    using ev1 by auto
qed

lemma critic_step_events:
  assumes "critic_step env q m (Some c) s = (r, s')" and "c \<noteq> []"
  shows "\<exists>reply vs. events s' = events s @ Chat (critic_prompt q c) CRITIC_SYSTEM_PROMPT reply # map Verdict vs
          \<and> ((\<exists>e. r = Inl e \<and> vs = [])
             \<or> (\<exists>v. vs = [v] \<and> approves v \<and> r = Inr (Break m (Some c)))
             \<or> (\<exists>v u. vs = [v] \<and> \<not> approves v \<and> r = Inr (Continue (m @ [UserMsg u]) (Some c))))"
proof -
  obtain r1 s1 where ce: "critic_evaluate env q c s = (r1, s1)"
    by (cases "critic_evaluate env q c s")
  from critic_evaluate_events(1) [OF ce] obtain reply where
    ev: "events s1 = events s @ Chat (critic_prompt q c) CRITIC_SYSTEM_PROMPT reply
                       # (case r1 of Inr v \<Rightarrow> [Verdict v] | Inl e \<Rightarrow> [])"
    by blast
  show ?thesis
  proof (cases r1)
    case (Inl e)
    then have "r = Inl e" "s' = s1"
      using assms ce by (simp_all add: critic_step_def bindp_def)
    then show ?thesis
      using ev Inl by (intro exI [of _ reply] exI [of _ "[]"]) simp
  next
    case (Inr v)
    then have "is_object v"
      using critic_evaluate_events(2) [OF ce] by simp
    then obtain kvs where v: "v = JObj kvs"
      by (cases v) (simp_all add: is_object_def)
    have "s' = s1 \<and> ((approves v \<and> r = Inr (Break m (Some c)))
                    \<or> (\<exists>u. \<not> approves v \<and> r = Inr (Continue (m @ [UserMsg u]) (Some c))))"
      using assms ce Inr v
      by (auto simp: critic_step_def bindp_def lift_def ret_def dict_get_def approves_def
               split: option.splits if_splits)
    then show ?thesis
      using ev Inr by (intro exI [of _ reply] exI [of _ "[v]"]) auto
  qed
qed

lemma py_iter_truthy: "truthy v \<Longrightarrow> py_iter v = Inr calls \<Longrightarrow> calls \<noteq> []"
  by (cases v) (auto simp: py_iter_def)

lemma verdicts_map_Verdict [simp]: "verdicts (map Verdict vs) = vs"
  by (induction vs) simp_all

lemma filter_map_Verdict [simp]:
  "filter is_tool_chat (map Verdict vs) = []" "filter is_critic_call (map Verdict vs) = []"
  by (induction vs) simp_all

lemma agent_iteration_events:
  assumes "agent_iteration env q m c s = (r, s')"
  shows "\<exists>reply rest. events s' = events s @ ToolChat m TOOLS reply # rest
          \<and> filter is_tool_chat rest = [] \<and> critic_calls rest \<le> 1
          \<and> round_outcome r (verdicts rest)
          \<and> (\<forall>m' c'. r = Inr (Break m' c') \<or> r = Inr (Continue m' c') \<longrightarrow>
                (\<exists>tool_result call_id before tail creply.
                   c' = Some tool_result \<and> tool_result \<noteq> []
                 \<and> m' = before @ ToolMsg call_id tool_result # tail \<and> length tail \<le> 1
                 \<and> filter is_critic_call rest
                     = [Chat (critic_prompt q tool_result) CRITIC_SYSTEM_PROMPT creply]))"
  (is "\<exists>reply rest. _ \<and> ?shape rest")
proof -
  obtain reply s1 where gw: "azure_chat_with_tools env m TOOLS AGENT_SYSTEM_PROMPT s = (reply, s1)"
    by (cases "azure_chat_with_tools env m TOOLS AGENT_SYSTEM_PROMPT s")
  then have ev1: "events s1 = events s @ [ToolChat m TOOLS reply]"
    by (auto simp: azure_chat_with_tools_def log_event_def split: prod.splits)
  have "\<exists>rest. events s' = events s1 @ rest \<and> ?shape rest"
  proof (cases reply)
    case (Inl e)
    then have "r = Inl e \<and> s' = s1"
      using assms gw by (auto simp: agent_iteration_def bindp_def)
    then show ?thesis
      by (intro exI [of _ "[]"]) (simp add: critic_calls_def)
  next
    case reply_ok: (Inr response)
    show ?thesis
    proof (cases "dict_get response ''tool_calls'' (JArr [])")
      case (Inl e)
      then have "r = Inl e \<and> s' = s1"
        using assms gw reply_ok by (auto simp: agent_iteration_def bindp_def lift_def)
      then show ?thesis
        by (intro exI [of _ "[]"]) (simp add: critic_calls_def)
    next
      case calls_ok: (Inr tool_calls)
      show ?thesis
      proof (cases "truthy tool_calls")
        case False
        then have "s' = s1 \<and> ((\<exists>e. r = Inl e) \<or> (\<exists>x. r = Inr (Return x)))"
          using assms gw reply_ok calls_ok
          by (cases "dict_get response ''content'' (JStr ''I couldn't find relevant information.'')")
             (auto simp: agent_iteration_def bindp_def lift_def ret_def)
        then show ?thesis
          by (intro exI [of _ "[]"]) (auto simp: critic_calls_def)
      next
        case True
        show ?thesis
        proof (cases "py_iter tool_calls")
          case (Inl e)
          then have "r = Inl e \<and> s' = s1"
            using assms gw reply_ok calls_ok True
            by (auto simp: agent_iteration_def bindp_def lift_def)
          then show ?thesis
            by (intro exI [of _ "[]"]) (simp add: critic_calls_def)
        next
          case iter_ok: (Inr calls)
          then have ne: "calls \<noteq> []"
            using True by (rule py_iter_truthy [rotated])
          obtain r2 s2 where tc: "run_tool_calls env calls c m s1 = (r2, s2)"
            by (cases "run_tool_calls env calls c m s1")
          from retrieval_onlyD [OF retrieval_only_run_tool_calls tc] obtain a
            where a: "events s2 = events s1 @ a" "list_all is_retrieval a" by blast
          note quiet = retrieval_filter [OF a(2)] retrieval_no_verdicts [OF a(2)]
          show ?thesis
          proof (cases r2)
            case (Inl e)
            then have "r = Inl e \<and> s' = s2"
              using assms gw reply_ok calls_ok True iter_ok tc
              by (auto simp: agent_iteration_def bindp_def lift_def)
            then show ?thesis
              using a quiet by (intro exI [of _ a]) (simp add: critic_calls_def)
          next
            case (Inr cm)
            obtain ctx' m' where cm: "cm = (ctx', m')"
              by (cases cm)
            from run_tool_calls_context [OF tc [unfolded Inr cm] ne] obtain tool_result call_id before
              where ctx: "ctx' = Some tool_result" "tool_result \<noteq> []"
                and m': "m' = before @ [AssistantMsg (last calls), ToolMsg call_id tool_result]"
              by blast
            have "critic_step env q m' (Some tool_result) s2 = (r, s')"
              using assms gw reply_ok calls_ok True iter_ok tc Inr cm ctx
              by (auto simp: agent_iteration_def bindp_def lift_def)
            from critic_step_events [OF this ctx(2)] obtain creply vs where
              ev: "events s' = events s2 @ Chat (critic_prompt q tool_result) CRITIC_SYSTEM_PROMPT creply
                                 # map Verdict vs"
              and out: "(\<exists>e. r = Inl e \<and> vs = [])
                \<or> (\<exists>v. vs = [v] \<and> approves v \<and> r = Inr (Break m' (Some tool_result)))
                \<or> (\<exists>v u. vs = [v] \<and> \<not> approves v
                       \<and> r = Inr (Continue (m' @ [UserMsg u]) (Some tool_result)))"
              by blast
            let ?rest = "a @ Chat (critic_prompt q tool_result) CRITIC_SYSTEM_PROMPT creply # map Verdict vs"
            have "events s' = events s1 @ ?rest"
              using ev a by simp
            moreover have "filter is_tool_chat ?rest = []" and "critic_calls ?rest \<le> 1"
              using quiet by (simp_all add: critic_calls_def)
            moreover have "verdicts ?rest = vs"
              using quiet by (simp add: verdicts_append)
            then have "round_outcome r (verdicts ?rest)"
              using out by auto
            moreover have "filter is_critic_call ?rest
                = [Chat (critic_prompt q tool_result) CRITIC_SYSTEM_PROMPT creply]"
              using quiet by simp
            moreover have "\<exists>before tail. mm = before @ ToolMsg call_id tool_result # tail \<and> length tail \<le> 1"
              if "mm = m' \<or> (\<exists>u. mm = m' @ [UserMsg u])" for mm
            proof -
              from that consider "mm = m'" | u where "mm = m' @ [UserMsg u]" by blast
              then show ?thesis
              proof cases
                case 1
                then have "mm = (before @ [AssistantMsg (last calls)]) @ ToolMsg call_id tool_result # []"
                  using m' by simp
                then show ?thesis by (metis list.size(3) zero_le)
              next
                case 2
                then have "mm = (before @ [AssistantMsg (last calls)]) @ ToolMsg call_id tool_result # [UserMsg u]"
                  using m' by simp
                then show ?thesis by (metis length_Cons list.size(3) le_refl One_nat_def)
              qed
            qed
            then have "\<forall>mm cc. r = Inr (Break mm cc) \<or> r = Inr (Continue mm cc) \<longrightarrow>
                (\<exists>tool_result call_id before tail creply.
                   cc = Some tool_result \<and> tool_result \<noteq> []
                 \<and> mm = before @ ToolMsg call_id tool_result # tail \<and> length tail \<le> 1
                 \<and> filter is_critic_call ?rest
                     = [Chat (critic_prompt q tool_result) CRITIC_SYSTEM_PROMPT creply])"
              using out ctx(2) calculation(5) by (auto; blast)
            ultimately show ?thesis by blast
          qed
        qed
      qed
    qed
  qed
  then show ?thesis
    using ev1 by auto
qed

section \<open>The loop\<close>

lemma TOOLS_nonempty [simp]: "TOOLS \<noteq> []"
  by (simp add: TOOLS_def)

lemma rounds_append: "rounds (a @ b) = rounds a + rounds b"
  by (simp add: rounds_def)

lemma syntheses_append: "syntheses (a @ b) = syntheses a + syntheses b"
  by (simp add: syntheses_def)

lemma no_tool_chat:
  assumes "filter is_tool_chat evs = []"
  shows "rounds evs = 0" and "syntheses evs = 0"
proof -
  have "\<not> is_round e \<and> \<not> is_synthesis e" if "\<not> is_tool_chat e" for e
    using that by (cases e) simp_all
  then show "rounds evs = 0" and "syntheses evs = 0"
    using assms by (auto simp: rounds_def syntheses_def filter_empty_conv)
qed

lemma agent_loop_events:
  assumes "agent_loop env q mx it m c s = (r, s')"
  shows "\<exists>evs. events s' = events s @ evs \<and> syntheses evs = 0
          \<and> rounds evs \<le> nat (mx - it)
          \<and> list_all (\<lambda>v. \<not> approves v) (butlast (verdicts evs))
          \<and> loop_outcome r (nat (mx - it)) (verdicts evs) (rounds evs)"
  using assms
proof (induction "nat (mx - it)" arbitrary: it m c s)
  case 0
  then have finished: "\<not> it < mx" by simp
  then have "r = Inr (Fallthrough m c) \<and> s' = s"
    using "0.prems" by (subst (asm) agent_loop.simps) auto
  then show ?case
    using finished by (intro exI [of _ "[]"]) (simp add: rounds_def syntheses_def)
next
  case (Suc n)
  then have lt: "it < mx" and n: "n = nat (mx - (it + 1))" by linarith+
  obtain r1 s1 where it1: "agent_iteration env q m c s = (r1, s1)"
    by (cases "agent_iteration env q m c s")
  from agent_iteration_events [OF it1] obtain reply rest where
    ev1: "events s1 = events s @ ToolChat m TOOLS reply # rest"
    and quiet: "filter is_tool_chat rest = []"
    and out1: "round_outcome r1 (verdicts rest)"
    by blast
  let ?ev1 = "ToolChat m TOOLS reply # rest"
  have r1: "rounds ?ev1 = 1" and s1: "syntheses ?ev1 = 0"
    using no_tool_chat [OF quiet] by (simp_all add: rounds_def syntheses_def)
  have v1: "verdicts ?ev1 = verdicts rest"
    by simp
  have budget: "1 \<le> nat (mx - it)"
    using lt by simp
  have stop: ?case
    if "s' = s1" and "loop_outcome r (nat (mx - it)) (verdicts rest) 1"
      and "list_all (\<lambda>v. \<not> approves v) (butlast (verdicts rest))"
    using that ev1 r1 s1 v1 budget by (intro exI [of _ ?ev1]) simp
  show ?case
  proof (cases r1)
    case (Inl e)
    then have "r = Inl e \<and> s' = s1"
      using Suc.prems it1 lt by (subst (asm) agent_loop.simps) auto
    then show ?thesis
      using out1 Inl by (intro stop) simp_all
  next
    case (Inr st)
    show ?thesis
    proof (cases st)
      case (Return x)
      then have "r = Inr (Returned x) \<and> s' = s1"
        using Suc.prems it1 lt Inr by (subst (asm) agent_loop.simps) auto
      then show ?thesis
        using out1 Inr Return by (intro stop) simp_all
    next
      case (Break m' c')
      then have "r = Inr (Fallthrough m' c') \<and> s' = s1"
        using Suc.prems it1 lt Inr by (subst (asm) agent_loop.simps) auto
      then show ?thesis
        using out1 Inr Break by (intro stop) (auto split: list.splits)
    next
      case (Continue m' c')
      then have rec: "agent_loop env q mx (it + 1) m' c' s1 = (r, s')"
        using Suc.prems it1 lt Inr by (subst (asm) agent_loop.simps) auto
      from out1 Inr Continue obtain v where v: "verdicts rest = [v]" "\<not> approves v"
        by (auto split: list.splits)
      from Suc.hyps(1) [OF n rec] obtain evs where
        ev2: "events s' = events s1 @ evs" and sy2: "syntheses evs = 0"
        and rn2: "rounds evs \<le> nat (mx - (it + 1))"
        and bl2: "list_all (\<lambda>v. \<not> approves v) (butlast (verdicts evs))"
        and out2: "loop_outcome r (nat (mx - (it + 1))) (verdicts evs) (rounds evs)"
        by blast
      let ?all = "?ev1 @ evs"
      have vs: "verdicts ?all = v # verdicts evs"
        using v by (simp add: verdicts_append [of ?ev1 evs, simplified])
      have rn: "rounds ?all = Suc (rounds evs)"
        using r1 rounds_append [of ?ev1 evs] by simp
      have sy: "syntheses ?all = 0"
        using s1 sy2 syntheses_append [of ?ev1 evs] by simp
      have bud: "nat (mx - it) = Suc (nat (mx - (it + 1)))"
        using lt by simp
      have bl: "list_all (\<lambda>v. \<not> approves v) (butlast (v # verdicts evs))"
        using bl2 v(2) by simp
      have "loop_outcome r (nat (mx - it)) (v # verdicts evs) (Suc (rounds evs))"
        using out2 v(2) unfolding bud
        by (cases "(r, nat (mx - (it + 1)), verdicts evs, rounds evs)" rule: loop_outcome.cases)
           auto
      then show ?thesis
        using ev1 ev2 vs rn sy bl rn2 bud
        by (intro exI [of _ ?all]) simp
    qed
  qed
qed

section \<open>A whole run\<close>

lemma gateway_pattern:
  "syntheses evs = 0 \<Longrightarrow> map is_synthesis (filter is_tool_chat evs) = replicate (rounds evs) False"
proof (induction evs)
  case Nil
  then show ?case by (simp add: rounds_def)
next
  case (Cons e evs)
  then show ?case
    by (cases e) (auto simp: rounds_def syntheses_def split: if_splits)
qed

lemma trace_eq: "events (snd (p s)) = events s @ evs \<Longrightarrow> trace p s = evs"
  by (simp add: trace_def)

text \<open>
  A run is the loop and, where the loop falls through, one more gateway call without tools,
  whose reply's content (or the fixed string, where the reply has no content field) is returned.
\<close>

lemma agentic_rag_events:
  obtains (ended) evs where "trace (agentic_rag env q mx) s = evs"
      and "syntheses evs = 0" and "rounds evs \<le> nat mx"
      and "list_all (\<lambda>v. \<not> approves v) (verdicts evs)"
      and "rounds evs = Suc (length (verdicts evs))"
    | (synthesis) evs m c reply where
        "trace (agentic_rag env q mx) s = evs @ [ToolChat (m @ [UserMsg (final_prompt q c)]) [] reply]"
      and "syntheses evs = 0" and "rounds evs \<le> nat mx"
      and "list_all (\<lambda>v. \<not> approves v) (butlast (verdicts evs))"
      and "length (verdicts evs) = rounds evs"
      and "(verdicts evs \<noteq> [] \<and> approves (last (verdicts evs))) \<or> rounds evs = nat mx"
      and "mx \<le> 0 \<longrightarrow> m = [UserMsg q] \<and> c = None"
      and "fst (agentic_rag env q mx s)
             = (case reply of Inl e \<Rightarrow> Inl e
                | Inr resp \<Rightarrow> dict_get resp ''content'' (JStr ''Unable to generate response.''))"
proof -
  obtain r1 s1 where lp: "agent_loop env q mx 0 [UserMsg q] None s = (r1, s1)"
    by (cases "agent_loop env q mx 0 [UserMsg q] None s")
  from agent_loop_events [OF lp] obtain evs where
    ev: "events s1 = events s @ evs" and sy: "syntheses evs = 0"
    and rn: "rounds evs \<le> nat mx"
    and bl: "list_all (\<lambda>v. \<not> approves v) (butlast (verdicts evs))"
    and out: "loop_outcome r1 (nat mx) (verdicts evs) (rounds evs)"
    by auto
  have early: thesis
    if "agentic_rag env q mx s = (r, s1)" and "\<forall>m c. r1 \<noteq> Inr (Fallthrough m c)" for r
  proof (rule ended)
    show "trace (agentic_rag env q mx) s = evs"
      using that(1) ev by (simp add: trace_def)
    show "syntheses evs = 0" and "rounds evs \<le> nat mx"
      by (rule sy, rule rn)
    show "list_all (\<lambda>v. \<not> approves v) (verdicts evs)"
      and "rounds evs = Suc (length (verdicts evs))"
      using out that(2)
      by (cases "(r1, nat mx, verdicts evs, rounds evs)" rule: loop_outcome.cases; simp)+
  qed
  show thesis
  proof (cases r1)
    case (Inl e)
    then have "agentic_rag env q mx s = (Inl e, s1)"
      using lp by (simp add: agentic_rag_def bindp_def)
    then show ?thesis
      using Inl by (intro early) simp_all
  next
    case (Inr ex)
    show ?thesis
    proof (cases ex)
      case (Returned x)
      then have "agentic_rag env q mx s = (Inr x, s1)"
        using lp Inr by (simp add: agentic_rag_def bindp_def ret_def)
      then show ?thesis
        using Inr Returned by (intro early) simp_all
    next
      case (Fallthrough m c)
      let ?msgs = "m @ [UserMsg (final_prompt q c)]"
      obtain reply s2 where gw: "azure_chat_with_tools env ?msgs [] AGENT_SYSTEM_PROMPT s1 = (reply, s2)"
        by (cases "azure_chat_with_tools env ?msgs [] AGENT_SYSTEM_PROMPT s1")
      then have ev2: "events s2 = events s1 @ [ToolChat ?msgs [] reply]"
        by (auto simp: azure_chat_with_tools_def log_event_def split: prod.splits)
      have run: "agentic_rag env q mx s
          = (case reply of Inl e \<Rightarrow> Inl e
             | Inr resp \<Rightarrow> dict_get resp ''content'' (JStr ''Unable to generate response.''), s2)"
        using lp Inr Fallthrough gw
        by (cases reply) (simp_all add: agentic_rag_def bindp_def lift_def)
      show ?thesis
      proof (rule synthesis)
        show "trace (agentic_rag env q mx) s = evs @ [ToolChat ?msgs [] reply]"
          using run ev ev2 by (simp add: trace_def)
        show "syntheses evs = 0" and "rounds evs \<le> nat mx"
          and "list_all (\<lambda>v. \<not> approves v) (butlast (verdicts evs))"
          by (rule sy, rule rn, rule bl)
        show "length (verdicts evs) = rounds evs"
          and "(verdicts evs \<noteq> [] \<and> approves (last (verdicts evs))) \<or> rounds evs = nat mx"
          using out Inr Fallthrough by simp_all
        show "mx \<le> 0 \<longrightarrow> m = [UserMsg q] \<and> c = None"
          using lp Inr Fallthrough by (subst (asm) agent_loop.simps) auto
        show "fst (agentic_rag env q mx s)
             = (case reply of Inl e \<Rightarrow> Inl e
                | Inr resp \<Rightarrow> dict_get resp ''content'' (JStr ''Unable to generate response.''))"
          using run by simp
      qed
    qed
  qed
qed

section \<open>Evaluating concrete runs\<close>

lemmas run_defs =
  agentic_rag_def agent_loop.simps agent_iteration_def critic_step_def critic_evaluate_def
  parse_verdict_def cleaned_response_def strip_def startswith_def endswith_def py_isspace_def
  sliceable_def tool_call_step_def execute_tool_def get_index_def retrieve_def load_index_def
  index_search_def azure_embed_def azure_chat_def azure_chat_with_tools_def log_event_def
  format_context_def make_passage_def py_str_def json_loads_def dict_get_def subscript_def
  py_iter_def py_len_def getitem_int_def bindp_def ret_def lift_def show_nat.simps digit_char_def
  scripted_env_def start_def next_chat_def next_tools_def ranked_search_def str_plain_def
  loads_plain_def decode_plain_def skip_ws_def json_ws_def scan_int_def scan_nat_def is_digit_def
  digits_value_def add_member_def trace_def rounds_def syntheses_def critic_calls_def
  approves_def

lemmas scenario_defs =
  nist_metadata_def search_reply_def search_call_def direct_reply_def
  verdict_sufficient_def verdict_insufficient_def nist_context_def unknown_call_def
  truncated_call_def two_call_reply_def verdict_undecided_def

section \<open>What a run does after an approving verdict, and without one\<close>

lemma nth_butlast_mem:
  assumes "Suc i < length xs"
  shows "xs ! i \<in> set (butlast xs)"
proof -
  have "i < length (butlast xs)" using assms by simp
  then have "butlast xs ! i \<in> set (butlast xs)" by (rule nth_mem)
  then show ?thesis using assms by (simp add: nth_butlast)
qed

lemma run_after_approval:
  assumes "1 \<le> k" and "k \<le> length (verdicts (trace (agentic_rag env q mx) s))"
    and "approves (verdicts (trace (agentic_rag env q mx) s) ! (k - 1))"
  shows "int k \<le> mx" and "k = length (verdicts (trace (agentic_rag env q mx) s))"
    and "map is_synthesis (filter is_tool_chat (trace (agentic_rag env q mx) s))
           = replicate k False @ [True]"
proof -
  have "int k \<le> mx \<and> k = length (verdicts (trace (agentic_rag env q mx) s))
      \<and> map is_synthesis (filter is_tool_chat (trace (agentic_rag env q mx) s))
           = replicate k False @ [True]"
  proof (cases rule: agentic_rag_events [of env q mx s])
    case (ended evs)
    have "k - 1 < length (verdicts evs)" and "approves (verdicts evs ! (k - 1))"
      using assms ended(1) by auto
    then have False
      using ended(4) by (auto simp: list_all_length)
    then show ?thesis ..
  next
    case (synthesis evs m c reply)
    let ?tr = "trace (agentic_rag env q mx) s"
    have vs: "verdicts ?tr = verdicts evs"
      using synthesis(1) by (simp add: verdicts_append)
    have gw: "map is_synthesis (filter is_tool_chat ?tr) = replicate (rounds evs) False @ [True]"
      using synthesis(1) gateway_pattern [OF synthesis(2)] by simp
    have k: "k \<le> length (verdicts evs)" "approves (verdicts evs ! (k - 1))"
      using assms vs by simp_all
    have "\<not> Suc (k - 1) < length (verdicts evs)"
    proof
      assume "Suc (k - 1) < length (verdicts evs)"
      then have "verdicts evs ! (k - 1) \<in> set (butlast (verdicts evs))"
        by (rule nth_butlast_mem)
      then show False
        using synthesis(4) k(2) by (auto simp: list_all_iff)
    qed
    then have len: "k = length (verdicts evs)"
      using assms(1) k(1) by simp
    then have "rounds evs = k"
      using synthesis(5) by simp
    then show ?thesis
      using gw synthesis(3) assms(1) len vs by auto
  qed
  then show "int k \<le> mx" and "k = length (verdicts (trace (agentic_rag env q mx) s))"
    and "map is_synthesis (filter is_tool_chat (trace (agentic_rag env q mx) s))
           = replicate k False @ [True]"
    by simp_all
qed

lemma run_without_approval:
  assumes "length (verdicts (trace (agentic_rag env q mx) s)) = rounds (trace (agentic_rag env q mx) s)"
    and "list_all (\<lambda>v. \<not> approves v) (verdicts (trace (agentic_rag env q mx) s))"
  shows "rounds (trace (agentic_rag env q mx) s) = nat mx
      \<and> map is_synthesis (filter is_tool_chat (trace (agentic_rag env q mx) s))
          = replicate (nat mx) False @ [True]
      \<and> (\<exists>msgs reply.
            last (trace (agentic_rag env q mx) s) = ToolChat msgs [] reply
          \<and> (mx \<le> 0 \<longrightarrow> msgs = [UserMsg q, UserMsg (final_prompt q None)])
          \<and> fst (agentic_rag env q mx s)
              = (case reply of Inl e \<Rightarrow> Inl e
                 | Inr resp \<Rightarrow> dict_get resp ''content'' (JStr ''Unable to generate response.'')))"
proof (cases rule: agentic_rag_events [of env q mx s])
  case (ended evs)
  then have False
    using assms(1) by simp
  then show ?thesis ..
next
  case (synthesis evs m c reply)
  let ?tr = "trace (agentic_rag env q mx) s"
  have vs: "verdicts ?tr = verdicts evs"
    using synthesis(1) by (simp add: verdicts_append)
  have rn: "rounds ?tr = rounds evs"
    using synthesis(1) by (simp add: rounds_def)
  have gw: "map is_synthesis (filter is_tool_chat ?tr) = replicate (rounds evs) False @ [True]"
    using synthesis(1) gateway_pattern [OF synthesis(2)] by simp
  have "list_all (\<lambda>v. \<not> approves v) (verdicts evs)"
    using assms(2) vs by simp
  then have "\<not> (verdicts evs \<noteq> [] \<and> approves (last (verdicts evs)))"
    by (auto simp: list_all_iff)
  then have full: "rounds evs = nat mx"
    using synthesis(6) by blast
  have "last ?tr = ToolChat (m @ [UserMsg (final_prompt q c)]) [] reply"
    using synthesis(1) by simp
  moreover have "mx \<le> 0 \<longrightarrow> m @ [UserMsg (final_prompt q c)] = [UserMsg q, UserMsg (final_prompt q None)]"
    using synthesis(7) by simp
  ultimately show ?thesis
    using full rn gw synthesis(8) by auto
qed

section \<open>How a round's end ends the loop\<close>

lemma agent_loop_raise:
  "it < mx \<Longrightarrow> agent_iteration env q m c s = (Inl e, s') \<Longrightarrow>
     agent_loop env q mx it m c s = (Inl e, s')"
  by (subst agent_loop.simps) simp

lemma agent_loop_return:
  "it < mx \<Longrightarrow> agent_iteration env q m c s = (Inr (Return v), s') \<Longrightarrow>
     agent_loop env q mx it m c s = (Inr (Returned v), s')"
  by (subst agent_loop.simps) simp

lemma agent_loop_break:
  "it < mx \<Longrightarrow> agent_iteration env q m c s = (Inr (Break m' c'), s') \<Longrightarrow>
     agent_loop env q mx it m c s = (Inr (Fallthrough m' c'), s')"
  by (subst agent_loop.simps) simp

lemma agentic_rag_first_raise:
  "0 < mx \<Longrightarrow> agent_iteration env q [UserMsg q] None s = (Inl e, s') \<Longrightarrow>
     agentic_rag env q mx s = (Inl e, s')"
  by (simp add: agentic_rag_def bindp_def agent_loop_raise)

lemma agentic_rag_first_return:
  "0 < mx \<Longrightarrow> agent_iteration env q [UserMsg q] None s = (Inr (Return v), s') \<Longrightarrow>
     agentic_rag env q mx s = (Inr v, s')"
  by (simp add: agentic_rag_def bindp_def ret_def agent_loop_return)

lemma azure_chat_with_tools_reply:
  "tools_completion env messages tools system_prompt (world s) = (reply, w') \<Longrightarrow>
     azure_chat_with_tools env messages tools system_prompt s
       = (reply, log_event (ToolChat messages tools reply) (s\<lparr>world := w'\<rparr>))"
  by (simp add: azure_chat_with_tools_def)

lemma trace_log_event:
  "snd (p s) = log_event e (s\<lparr>world := w'\<rparr>) \<Longrightarrow> trace p s = [e]"
  by (simp add: trace_def log_event_def)

section \<open>Rounds after the first\<close>

lemma loop_reaches_agent_loop:
  "loop_reaches env q mx s0 it m c s \<Longrightarrow>
     agent_loop env q mx 0 [UserMsg q] None s0 = agent_loop env q mx it m c s"
proof (induction rule: loop_reaches.induct)
  case first_round
  show ?case by simp
next
  case (next_round it m c s m' c' s')
  have "agent_loop env q mx it m c s = agent_loop env q mx (it + 1) m' c' s'"
    using next_round.hyps(2,3) by (subst agent_loop.simps) simp
  with next_round.IH show ?case by simp
qed

lemma agentic_rag_raise:
  assumes "loop_reaches env q mx s0 it m c s" and "it < mx"
    and "agent_iteration env q m c s = (Inl e, s')"
  shows "agentic_rag env q mx s0 = (Inl e, s')"
  using loop_reaches_agent_loop [OF assms(1)] agent_loop_raise [OF assms(2,3)]
  by (simp add: agentic_rag_def bindp_def)

lemma agentic_rag_return:
  assumes "loop_reaches env q mx s0 it m c s" and "it < mx"
    and "agent_iteration env q m c s = (Inr (Return v), s')"
  shows "agentic_rag env q mx s0 = (Inr v, s')"
  using loop_reaches_agent_loop [OF assms(1)] agent_loop_return [OF assms(2,3)]
  by (simp add: agentic_rag_def bindp_def ret_def)

lemma events_log_event [simp]: "events (log_event e s) = events s @ [e]"
  by (simp add: log_event_def)

text \<open>The record of a run that ends inside the loop is the loop's: it holds no synthesis call,
  and it ends with what the last round appended.\<close>

lemma agentic_rag_ended:
  assumes "agentic_rag env q mx s0 = (r, s')"
    and "agent_loop env q mx 0 [UserMsg q] None s0 = (r1, s')"
  shows "syntheses (trace (agentic_rag env q mx) s0) = 0"
proof -
  from agent_loop_events [OF assms(2)] obtain evs where
    "events s' = events s0 @ evs" and "syntheses evs = 0"
    by auto
  then show ?thesis
    using assms(1) by (simp add: trace_def)
qed

lemma loop_reaches_events:
  "loop_reaches env q mx s0 it m c s \<Longrightarrow> \<exists>evs. events s = events s0 @ evs"
proof (induction rule: loop_reaches.induct)
  case first_round
  show ?case by simp
next
  case (next_round it m c s m' c' s')
  from agent_iteration_events [OF next_round.hyps(3)] next_round.IH show ?case
    by auto
qed

lemma agent_iteration_direct:
  assumes "tools_completion env m TOOLS AGENT_SYSTEM_PROMPT (world s) = (Inr (JObj reply), w')"
    and "\<not> truthy (case map_of reply ''tool_calls'' of None \<Rightarrow> JArr [] | Some calls \<Rightarrow> calls)"
  shows "agent_iteration env q m c s
           = (Inr (Return (case map_of reply ''content'' of
                             None \<Rightarrow> JStr ''I couldn't find relevant information.''
                           | Some content \<Rightarrow> content)),
              log_event (ToolChat m TOOLS (Inr (JObj reply))) (s\<lparr>world := w'\<rparr>))"
  using assms(2) azure_chat_with_tools_reply [OF assms(1)]
  by (simp add: agent_iteration_def bindp_def lift_def ret_def dict_get_def)

lemma direct_answer_ends_run:
  assumes "loop_reaches env q mx s0 it m c s" and "it < mx"
    and "tools_completion env m TOOLS AGENT_SYSTEM_PROMPT (world s) = (Inr (JObj reply), w')"
    and "\<not> truthy (case map_of reply ''tool_calls'' of None \<Rightarrow> JArr [] | Some calls \<Rightarrow> calls)"
  shows "fst (agentic_rag env q mx s0)
           = Inr (case map_of reply ''content'' of
                    None \<Rightarrow> JStr ''I couldn't find relevant information.''
                  | Some content \<Rightarrow> content)"
    and "syntheses (trace (agentic_rag env q mx) s0) = 0"
    and "last (trace (agentic_rag env q mx) s0) = ToolChat m TOOLS (Inr (JObj reply))"
proof -
  let ?answer = "case map_of reply ''content'' of
                   None \<Rightarrow> JStr ''I couldn't find relevant information.''
                 | Some content \<Rightarrow> content"
  let ?s' = "log_event (ToolChat m TOOLS (Inr (JObj reply))) (s\<lparr>world := w'\<rparr>)"
  have round: "agent_iteration env q m c s = (Inr (Return ?answer), ?s')"
    using assms(3,4) by (rule agent_iteration_direct)
  have run: "agentic_rag env q mx s0 = (Inr ?answer, ?s')"
    using assms(1,2) round by (rule agentic_rag_return)
  then show "fst (agentic_rag env q mx s0) = Inr ?answer"
    by simp
  have "agent_loop env q mx 0 [UserMsg q] None s0 = (Inr (Returned ?answer), ?s')"
    using loop_reaches_agent_loop [OF assms(1)] agent_loop_return [OF assms(2) round] by simp
  with run show "syntheses (trace (agentic_rag env q mx) s0) = 0"
    by (rule agentic_rag_ended)
  from loop_reaches_events [OF assms(1)] obtain evs where "events s = events s0 @ evs"
    by blast
  then have "trace (agentic_rag env q mx) s0 = evs @ [ToolChat m TOOLS (Inr (JObj reply))]"
    using run by (simp add: trace_def)
  then show "last (trace (agentic_rag env q mx) s0) = ToolChat m TOOLS (Inr (JObj reply))"
    by simp
qed

section \<open>The critic\<close>

lemma critic_evaluate_reply:
  assumes "chat_completion env (critic_prompt query context) CRITIC_SYSTEM_PROMPT (world s)
             = (Inr (JStr response), w')"
  shows "fst (critic_evaluate env query context s) = parse_verdict env response"
  using assms
  by (cases "parse_verdict env response")
     (simp_all add: critic_evaluate_def azure_chat_def bindp_def lift_def)

lemma critic_step_raises:
  assumes "fst (critic_evaluate env query c s) = Inl e" and "c \<noteq> []"
  shows "fst (critic_step env query messages (Some c) s) = Inl e"
  using assms
  by (cases "critic_evaluate env query c s") (simp add: critic_step_def bindp_def)

lemma critic_step_sufficient:
  assumes "fst (critic_evaluate env query c s) = Inr (JObj kvs)"
    and "map_of kvs ''decision'' = None \<or> map_of kvs ''decision'' = Some (JStr ''sufficient'')"
    and "c \<noteq> []"
  shows "fst (critic_step env query messages (Some c) s) = Inr (Break messages (Some c))"
  using assms
  by (cases "critic_evaluate env query c s")
     (auto simp: critic_step_def bindp_def lift_def ret_def dict_get_def)

text \<open>
  C3, as stated, fails: the fallback is the handler of JSONDecodeError, and not every text that
  is not JSON makes \<^verbatim>\<open>json.loads\<close> raise it.  The reply \<^verbatim>\<open>NaN\<close> is not JSON, yet \<^verbatim>\<open>json.loads\<close>
  decodes it to a float; the log line's \<^verbatim>\<open>result.get\<close> then raises AttributeError, which leaves
  \<^verbatim>\<open>critic_evaluate\<close> and the orchestrator.
\<close>

theorem critic_fallback_counterexample:
  "loads (scripted_env nist_metadata) (cleaned_response ''NaN'') = Inr (JFloat NotANumber)
   \<and> fst (critic_evaluate (scripted_env nist_metadata) zero_trust_query nist_context
            (start [] [Inr (JStr ''NaN'')]))
       = Inl AttributeError
   \<and> fst (agentic_rag (scripted_env nist_metadata) zero_trust_query 3
            (start [Inr search_reply, Inr direct_reply] [Inr (JStr ''NaN'')]))
       = Inl AttributeError"
  by (simp add: run_defs scenario_defs)

text \<open>
  C3, amended.  When the gateway's reply to the critic prompt is a string on whose cleaned text
  \<^verbatim>\<open>json.loads\<close> raises JSONDecodeError, \<^verbatim>\<open>critic_evaluate\<close> raises nothing and returns the verdict
  with decision \<^verbatim>\<open>sufficient\<close>, reasoning \<^verbatim>\<open>Parse error fallback\<close> and refined query \<^verbatim>\<open>None\<close>; the
  round of the orchestrator that asked ends by leaving the loop, so its caller sees no failure.
\<close>

theorem critic_parse_error_fallback:
  assumes "chat_completion env (critic_prompt query context) CRITIC_SYSTEM_PROMPT (world s)
             = (Inr (JStr response), w')"
    and "loads env (cleaned_response response) = Inl JSONDecodeError"
  shows "parse_verdict env response = Inr fallback_verdict
       \<and> fst (critic_evaluate env query context s) = Inr fallback_verdict
       \<and> (context \<noteq> [] \<longrightarrow>
            fst (critic_step env query messages (Some context) s) = Inr (Break messages (Some context)))"
proof -
  have pv: "parse_verdict env response = Inr fallback_verdict"
    using assms(2) by (simp add: parse_verdict_def)
  then have ce: "fst (critic_evaluate env query context s) = Inr fallback_verdict"
    using critic_evaluate_reply [OF assms(1)] by simp
  let ?kvs = "[(''decision'', JStr ''sufficient''), (''reasoning'', JStr ''Parse error fallback''),
               (''refined_query'', JNull)]"
  from ce have ce': "fst (critic_evaluate env query context s) = Inr (JObj ?kvs)"
    by (simp add: fallback_verdict_def)
  have dec: "map_of ?kvs ''decision'' = None \<or> map_of ?kvs ''decision'' = Some (JStr ''sufficient'')"
    by simp
  have "context \<noteq> [] \<Longrightarrow>
    fst (critic_step env query messages (Some context) s) = Inr (Break messages (Some context))"
    by (rule critic_step_sufficient [OF ce' dec])
  then show ?thesis
    using pv ce by simp
qed

theorem critic_parse_error_fallback_witness:
  \<open>loads (scripted_env JNull) (cleaned_response ''{"decision": "suff'') = Inl JSONDecodeError
   \<and> fst (critic_evaluate (scripted_env JNull) ''q'' ''ctx'' (start [] [Inr (JStr ''{"decision": "suff'')]))
       = Inr fallback_verdict
   \<and> fst (critic_step (scripted_env JNull) ''q'' [UserMsg ''q''] (Some ''ctx'')
            (start [] [Inr (JStr ''{"decision": "suff'')]))
       = Inr (Break [UserMsg ''q''] (Some ''ctx''))\<close>
proof -
  have bad: \<open>loads (scripted_env JNull) (cleaned_response ''{"decision": "suff'') = Inl JSONDecodeError\<close>
    by (simp add: scripted_env_def cleaned_response_def strip_def startswith_def endswith_def
          py_isspace_def loads_plain_def decode_plain_def skip_ws_def json_ws_def)
  have gw: \<open>chat_completion (scripted_env JNull) (critic_prompt ''q'' ''ctx'') CRITIC_SYSTEM_PROMPT
              (world (start [] [Inr (JStr ''{"decision": "suff'')]))
            = (Inr (JStr ''{"decision": "suff''), \<lparr>tool_replies = [], chat_replies = []\<rparr>)\<close>
    by (simp add: scripted_env_def next_chat_def start_def)
  show ?thesis
    using critic_parse_error_fallback [OF gw bad, of "[UserMsg ''q'']"] bad by simp
qed

text \<open>
  C4.  For every object text \<open>j\<close>, the reply that wraps \<open>j\<close> in a fence tagged \<^verbatim>\<open>json\<close>, the
  reply that wraps it in a bare fence (white space on either side of \<open>j\<close> inside the fence) and
  \<open>j\<close> itself are cleaned to the same text, \<open>j\<close> without surrounding white space, and so are
  parsed to the same verdict.
\<close>

theorem critic_fences_stripped:
  assumes "is_object_text j"
    and "\<forall>c \<in> set pre. py_isspace c" and "\<forall>c \<in> set post. py_isspace c"
  shows "cleaned_response (''```json'' @ pre @ j @ post @ ''```'') = strip j
       \<and> cleaned_response (''```'' @ pre @ j @ post @ ''```'') = strip j
       \<and> cleaned_response j = strip j
       \<and> parse_verdict env (''```json'' @ pre @ j @ post @ ''```'') = parse_verdict env j
       \<and> parse_verdict env (''```'' @ pre @ j @ post @ ''```'') = parse_verdict env j"
proof -
  let ?body = "pre @ j @ post"
  have pad: "strip ?body = strip j"
    using assms(2,3) by (rule strip_pad)
  have st: "strip (''```json'' @ ?body @ ''```'') = ''```json'' @ ?body @ ''```''"
    by (rule strip_fixed) (simp_all add: py_isspace_def)
  have su: "strip (''```'' @ ?body @ ''```'') = ''```'' @ ?body @ ''```''"
    by (rule strip_fixed) (simp_all add: py_isspace_def)
  have tagged: "cleaned_response (''```json'' @ ?body @ ''```'') = strip ?body"
    by (rule cleaned_json_fence [OF st]) (simp_all add: startswith_def)
  have "hd (pre @ j @ post @ ''```'') \<noteq> CHR ''j''"
    using assms(1,2) by (rule object_text_hd)
  then have untagged: "\<not> startswith (''```'' @ ?body @ ''```'') ''```json''"
    by (cases "pre @ j @ post @ ''```''") (auto simp: startswith_def)
  have plain: "cleaned_response (''```'' @ ?body @ ''```'') = strip ?body"
    by (rule cleaned_plain_fence [OF su untagged]) (simp_all add: startswith_def)
  have bare: "cleaned_response j = strip j"
    using assms(1) by (rule object_text_no_fence)
  show ?thesis
    using tagged plain bare pad by (simp add: parse_verdict_def)
qed

theorem critic_fences_stripped_witness:
  \<open>is_object_text ''{"decision": "insufficient"}''
   \<and> py_isspace CHR 0x0A
   \<and> parse_verdict (scripted_env JNull) ''```json\<newline>{"decision": "insufficient"}\<newline>```''
       = Inr (JObj [(''decision'', JStr ''insufficient'')])
   \<and> parse_verdict (scripted_env JNull) ''```\<newline>{"decision": "insufficient"}\<newline>```''
       = Inr (JObj [(''decision'', JStr ''insufficient'')])
   \<and> parse_verdict (scripted_env JNull) ''{"decision": "insufficient"}''
       = Inr (JObj [(''decision'', JStr ''insufficient'')])\<close>
proof -
  have obj: \<open>is_object_text ''{"decision": "insufficient"}''\<close>
    by (simp add: is_object_text_def strip_def py_isspace_def)
  have ws: "\<forall>c \<in> set ''\<newline>''. py_isspace c"
    by (simp add: py_isspace_def)
  have bare: \<open>parse_verdict (scripted_env JNull) ''{"decision": "insufficient"}''
       = Inr (JObj [(''decision'', JStr ''insufficient'')])\<close>
    by (simp add: parse_verdict_def scripted_env_def cleaned_response_def strip_def startswith_def
          endswith_def py_isspace_def loads_plain_def decode_plain_def skip_ws_def json_ws_def
          dict_get_def
          sliceable_def)
  show ?thesis
    using critic_fences_stripped [OF obj ws ws, of "scripted_env JNull"] obj ws bare by simp
qed

text \<open>
  C8.  When the cleaned reply decodes to a value that is not an object (a number, a string, a
  list, a boolean, \<^verbatim>\<open>null\<close>), \<^verbatim>\<open>critic_evaluate\<close> returns no verdict: the log line's
  \<^verbatim>\<open>result.get\<close> raises AttributeError, which the handler for JSONDecodeError does not catch,
  and the round of the orchestrator that asked raises it too.
\<close>

theorem critic_non_object_raises:
  assumes "chat_completion env (critic_prompt query context) CRITIC_SYSTEM_PROMPT (world s)
             = (Inr (JStr response), w')"
    and "loads env (cleaned_response response) = Inr v"
    and "\<not> is_object v"
  shows "parse_verdict env response = Inl AttributeError
       \<and> fst (critic_evaluate env query context s) = Inl AttributeError
       \<and> (context \<noteq> [] \<longrightarrow>
            fst (critic_step env query messages (Some context) s) = Inl AttributeError)"
proof -
  have pv: "parse_verdict env response = Inl AttributeError"
    using assms(2,3) by (cases v) (simp_all add: parse_verdict_def dict_get_def is_object_def)
  then have ce: "fst (critic_evaluate env query context s) = Inl AttributeError"
    using critic_evaluate_reply [OF assms(1)] by simp
  then show ?thesis
    using pv critic_step_raises by blast
qed

theorem critic_non_object_raises_witness:
  \<open>loads (scripted_env JNull) (cleaned_response ''[1, 2]'') = Inr (JArr [JInt 1, JInt 2])
   \<and> \<not> is_object (JArr [JInt 1, JInt 2])
   \<and> fst (critic_evaluate (scripted_env JNull) ''q'' ''ctx'' (start [] [Inr (JStr ''[1, 2]'')]))
       = Inl AttributeError
   \<and> fst (critic_step (scripted_env JNull) ''q'' [UserMsg ''q''] (Some ''ctx'')
            (start [] [Inr (JStr ''[1, 2]'')]))
       = Inl AttributeError\<close>
proof -
  have dec: \<open>loads (scripted_env JNull) (cleaned_response ''[1, 2]'') = Inr (JArr [JInt 1, JInt 2])\<close>
    by (simp add: scripted_env_def cleaned_response_def strip_def startswith_def endswith_def
          py_isspace_def loads_plain_def decode_plain_def skip_ws_def json_ws_def scan_int_def scan_nat_def
          is_digit_def digits_value_def)
  have gw: \<open>chat_completion (scripted_env JNull) (critic_prompt ''q'' ''ctx'') CRITIC_SYSTEM_PROMPT
              (world (start [] [Inr (JStr ''[1, 2]'')]))
            = (Inr (JStr ''[1, 2]''), \<lparr>tool_replies = [], chat_replies = []\<rparr>)\<close>
    by (simp add: scripted_env_def next_chat_def start_def)
  have no: "\<not> is_object (JArr [JInt 1, JInt 2])"
    by (simp add: is_object_def)
  show ?thesis
    using critic_non_object_raises [OF gw dec no, of "[UserMsg ''q'']"] dec no by simp
qed

section \<open>The dispatcher\<close>

text \<open>
  C5.  For every tool name other than \<^verbatim>\<open>search_nist_knowledge\<close> and whatever the arguments
  are, \<^verbatim>\<open>execute_tool\<close> returns the string \<^verbatim>\<open>Unknown tool: <name>\<close>; it raises nothing, calls
  no collaborator and leaves the state as it was.
\<close>

theorem execute_tool_unknown:
  "tool_name \<noteq> ''search_nist_knowledge'' \<Longrightarrow>
     execute_tool env (JStr tool_name) arguments s = (Inr (''Unknown tool: '' @ tool_name), s)"
  by (simp add: execute_tool_def ret_def py_str_def)

theorem execute_tool_unknown_witness:
  "''does_not_exist'' \<noteq> ''search_nist_knowledge'' \<and>
   execute_tool (scripted_env JNull) (JStr ''does_not_exist'') (JObj [(''query'', JStr ''zero trust'')])
       (start [] [])
     = (Inr ''Unknown tool: does_not_exist'', start [] [])"
  using execute_tool_unknown
          [of "''does_not_exist''" "scripted_env JNull" "JObj [(''query'', JStr ''zero trust'')]" "start [] []"]
  by simp

section \<open>Rounds, verdicts and the synthesis call\<close>

text \<open>
  C1, as the specification states its second half, fails: a run whose critic never returns
  \<^verbatim>\<open>sufficient\<close> need not use up its rounds.  With three rounds allowed, the model asks for a
  search, the critic finds the context insufficient, and the model then answers directly: the
  run ends after two tool-augmented calls with that answer and makes no synthesis call.
\<close>

theorem iteration_cap_counterexample:
  \<open>verdicts (trace (agentic_rag (scripted_env nist_metadata) zero_trust_query 3)
              (start [Inr search_reply, Inr direct_reply] [Inr verdict_insufficient]))
     = [JObj [(''decision'', JStr ''insufficient''), (''reasoning'', JStr ''off topic''),
              (''refined_query'', JNull)]]
   \<and> \<not> approves (JObj [(''decision'', JStr ''insufficient''), (''reasoning'', JStr ''off topic''),
                        (''refined_query'', JNull)])
   \<and> rounds (trace (agentic_rag (scripted_env nist_metadata) zero_trust_query 3)
              (start [Inr search_reply, Inr direct_reply] [Inr verdict_insufficient])) = 2
   \<and> syntheses (trace (agentic_rag (scripted_env nist_metadata) zero_trust_query 3)
              (start [Inr search_reply, Inr direct_reply] [Inr verdict_insufficient])) = 0
   \<and> fst (agentic_rag (scripted_env nist_metadata) zero_trust_query 3
              (start [Inr search_reply, Inr direct_reply] [Inr verdict_insufficient]))
     = Inr (JStr ''Zero trust is a security model.'')\<close>
  by (simp add: run_defs scenario_defs)

text \<open>
  C1, amended.  For every run of \<^verbatim>\<open>agentic_rag\<close>: if the \<open>k\<close>-th verdict the critic returns is read
  as sufficient (its decision is \<^verbatim>\<open>sufficient\<close>, or it has no decision), then
  \<open>k \<le> max_iterations\<close> and the gateway's tool-augmented capability is called exactly \<open>k\<close> times
  with the tools and then exactly once without (the synthesis).  If every round of the run
  obtains a verdict (so each reply of the loop carries a tool invocation and nothing raises) and
  no verdict is read as sufficient, then the run performs exactly \<open>max_iterations\<close> rounds (none
  when \<open>max_iterations \<le> 0\<close>), then exactly one synthesis call, and returns what that call
  yields: the content of its reply, the fixed string where the reply has no content field, its
  exception where it raises.  With no round the synthesis prompt is built from the absent
  context.  And where a round the run comes to gets a reply without tool invocation, the run
  ends there: it returns the reply's content (the fixed string where the reply has no content
  field), that gateway call is its last call, and it makes no synthesis call.
\<close>

theorem agentic_rag_rounds:
  "(\<forall>k. 1 \<le> k \<and> k \<le> length (verdicts (trace (agentic_rag env q mx) s))
          \<and> approves (verdicts (trace (agentic_rag env q mx) s) ! (k - 1)) \<longrightarrow>
        int k \<le> mx
      \<and> map is_synthesis (filter is_tool_chat (trace (agentic_rag env q mx) s))
          = replicate k False @ [True])
   \<and> (length (verdicts (trace (agentic_rag env q mx) s)) = rounds (trace (agentic_rag env q mx) s)
        \<and> list_all (\<lambda>v. \<not> approves v) (verdicts (trace (agentic_rag env q mx) s)) \<longrightarrow>
        rounds (trace (agentic_rag env q mx) s) = nat mx
      \<and> map is_synthesis (filter is_tool_chat (trace (agentic_rag env q mx) s))
          = replicate (nat mx) False @ [True]
      \<and> (\<exists>msgs reply.
            last (trace (agentic_rag env q mx) s) = ToolChat msgs [] reply
          \<and> (mx \<le> 0 \<longrightarrow> msgs = [UserMsg q, UserMsg (final_prompt q None)])
          \<and> fst (agentic_rag env q mx s)
              = (case reply of Inl e \<Rightarrow> Inl e
                 | Inr resp \<Rightarrow> dict_get resp ''content'' (JStr ''Unable to generate response.''))))
   \<and> (loop_reaches env q mx s it m c s1 \<and> it < mx
        \<and> tools_completion env m TOOLS AGENT_SYSTEM_PROMPT (world s1) = (Inr (JObj direct), w')
        \<and> \<not> truthy (case map_of direct ''tool_calls'' of None \<Rightarrow> JArr [] | Some calls \<Rightarrow> calls) \<longrightarrow>
        fst (agentic_rag env q mx s)
          = Inr (case map_of direct ''content'' of
                   None \<Rightarrow> JStr ''I couldn't find relevant information.''
                 | Some content \<Rightarrow> content)
      \<and> syntheses (trace (agentic_rag env q mx) s) = 0
      \<and> last (trace (agentic_rag env q mx) s) = ToolChat m TOOLS (Inr (JObj direct)))"
proof -
  have "int k \<le> mx
      \<and> map is_synthesis (filter is_tool_chat (trace (agentic_rag env q mx) s))
          = replicate k False @ [True]"
    if "1 \<le> k \<and> k \<le> length (verdicts (trace (agentic_rag env q mx) s))
          \<and> approves (verdicts (trace (agentic_rag env q mx) s) ! (k - 1))" for k
    using that run_after_approval [of k env q mx s] by simp
  moreover note run_without_approval [of env q mx s]
  moreover have "fst (agentic_rag env q mx s)
          = Inr (case map_of direct ''content'' of
                   None \<Rightarrow> JStr ''I couldn't find relevant information.''
                 | Some content \<Rightarrow> content)
      \<and> syntheses (trace (agentic_rag env q mx) s) = 0
      \<and> last (trace (agentic_rag env q mx) s) = ToolChat m TOOLS (Inr (JObj direct))"
    if "loop_reaches env q mx s it m c s1" and "it < mx"
      and "tools_completion env m TOOLS AGENT_SYSTEM_PROMPT (world s1) = (Inr (JObj direct), w')"
      and "\<not> truthy (case map_of direct ''tool_calls'' of None \<Rightarrow> JArr [] | Some calls \<Rightarrow> calls)"
    using direct_answer_ends_run [OF that] by simp
  ultimately show ?thesis
    by blast
qed

theorem agentic_rag_rounds_witness:
  \<open>approves (verdicts (trace (agentic_rag (scripted_env nist_metadata) zero_trust_query 3)
                        (start [Inr search_reply, Inr direct_reply] [Inr verdict_sufficient])) ! 0)
   \<and> map is_synthesis (filter is_tool_chat
         (trace (agentic_rag (scripted_env nist_metadata) zero_trust_query 3)
            (start [Inr search_reply, Inr direct_reply] [Inr verdict_sufficient])))
       = [False, True]
   \<and> length (verdicts (trace (agentic_rag (scripted_env nist_metadata) zero_trust_query 2)
            (start [Inr search_reply, Inr search_reply, Inr direct_reply]
               [Inr verdict_insufficient, Inr verdict_insufficient]))) = 2
   \<and> rounds (trace (agentic_rag (scripted_env nist_metadata) zero_trust_query 2)
            (start [Inr search_reply, Inr search_reply, Inr direct_reply]
               [Inr verdict_insufficient, Inr verdict_insufficient])) = 2
   \<and> map is_synthesis (filter is_tool_chat
         (trace (agentic_rag (scripted_env nist_metadata) zero_trust_query 2)
            (start [Inr search_reply, Inr search_reply, Inr direct_reply]
               [Inr verdict_insufficient, Inr verdict_insufficient])))
       = [False, False, True]
   \<and> loop_reaches (scripted_env nist_metadata) zero_trust_query 3
         (start [Inr search_reply, Inr direct_reply] [Inr verdict_insufficient])
         1
         [UserMsg zero_trust_query, AssistantMsg search_call, ToolMsg (JStr ''call_1'') nist_context,
          UserMsg ''The retrieved information wasn't sufficient. Please try a broader or different search.'']
         (Some nist_context)
         (snd (agent_iteration (scripted_env nist_metadata) zero_trust_query [UserMsg zero_trust_query]
                 None (start [Inr search_reply, Inr direct_reply] [Inr verdict_insufficient])))
   \<and> fst (agentic_rag (scripted_env nist_metadata) zero_trust_query 3
            (start [Inr search_reply, Inr direct_reply] [Inr verdict_insufficient]))
       = Inr (JStr ''Zero trust is a security model.'')
   \<and> syntheses (trace (agentic_rag (scripted_env nist_metadata) zero_trust_query 3)
         (start [Inr search_reply, Inr direct_reply] [Inr verdict_insufficient])) = 0\<close>
proof -
  let ?env = "scripted_env nist_metadata"
  let ?one = "trace (agentic_rag ?env zero_trust_query 3)
                (start [Inr search_reply, Inr direct_reply] [Inr verdict_sufficient])"
  let ?two = "trace (agentic_rag ?env zero_trust_query 2)
                (start [Inr search_reply, Inr search_reply, Inr direct_reply]
                   [Inr verdict_insufficient, Inr verdict_insufficient])"
  let ?s0 = "start [Inr search_reply, Inr direct_reply] [Inr verdict_insufficient]"
  let ?m1 = "[UserMsg zero_trust_query, AssistantMsg search_call,
              ToolMsg (JStr ''call_1'') nist_context,
              UserMsg ''The retrieved information wasn't sufficient. Please try a broader or different search.'']"
  let ?s1 = "snd (agent_iteration ?env zero_trust_query [UserMsg zero_trust_query] None ?s0)"
  let ?direct = "[(''role'', JStr ''assistant''), (''content'', JStr ''Zero trust is a security model.'')]"
  have v1: \<open>verdicts ?one = [JObj [(''decision'', JStr ''sufficient''), (''reasoning'', JStr ''on topic''),
                                 (''refined_query'', JNull)]]\<close>
    by (simp add: run_defs scenario_defs)
  then have a1: "1 \<le> (1::nat) \<and> 1 \<le> length (verdicts ?one) \<and> approves (verdicts ?one ! (1 - 1))"
    by (simp add: approves_def dict_get_def)
  have v2: \<open>verdicts ?two = [JObj [(''decision'', JStr ''insufficient''), (''reasoning'', JStr ''off topic''),
                                 (''refined_query'', JNull)],
                           JObj [(''decision'', JStr ''insufficient''), (''reasoning'', JStr ''off topic''),
                                 (''refined_query'', JNull)]]\<close>
    by (simp add: run_defs scenario_defs)
  have r2: "rounds ?two = 2"
    by (simp add: run_defs scenario_defs)
  have a2: "length (verdicts ?two) = rounds ?two \<and> list_all (\<lambda>v. \<not> approves v) (verdicts ?two)"
    using v2 r2 by (simp add: approves_def dict_get_def)
  have "fst (agent_iteration ?env zero_trust_query [UserMsg zero_trust_query] None ?s0)
          = Inr (Continue ?m1 (Some nist_context))"
    by (simp add: run_defs scenario_defs)
  then have round1: "agent_iteration ?env zero_trust_query [UserMsg zero_trust_query] None ?s0
          = (Inr (Continue ?m1 (Some nist_context)), ?s1)"
    by (metis prod.collapse)
  have reach: "loop_reaches ?env zero_trust_query 3 ?s0 (0 + 1) ?m1 (Some nist_context) ?s1"
    by (rule loop_reaches.next_round [OF loop_reaches.first_round _ round1]) simp
  have "world ?s1 = \<lparr>tool_replies = [Inr direct_reply], chat_replies = []\<rparr>"
    by (simp add: run_defs nist_metadata_def search_reply_def search_call_def
          verdict_insufficient_def)
  then have gw: "tools_completion ?env ?m1 TOOLS AGENT_SYSTEM_PROMPT (world ?s1)
          = (Inr (JObj ?direct), \<lparr>tool_replies = [], chat_replies = []\<rparr>)"
    by (simp add: scripted_env_def next_tools_def direct_reply_def)
  have a3: "loop_reaches ?env zero_trust_query 3 ?s0 (0 + 1) ?m1 (Some nist_context) ?s1
      \<and> (0 + 1 :: int) < 3
      \<and> tools_completion ?env ?m1 TOOLS AGENT_SYSTEM_PROMPT (world ?s1)
          = (Inr (JObj ?direct), \<lparr>tool_replies = [], chat_replies = []\<rparr>)
      \<and> \<not> truthy (case map_of ?direct ''tool_calls'' of None \<Rightarrow> JArr [] | Some calls \<Rightarrow> calls)"
    using reach gw by simp
  note first = agentic_rag_rounds
    [of ?env zero_trust_query 3
        "start [Inr search_reply, Inr direct_reply] [Inr verdict_sufficient]",
     THEN conjunct1, THEN spec, of 1, THEN mp, OF a1]
  note second = agentic_rag_rounds
    [of ?env zero_trust_query 2
        "start [Inr search_reply, Inr search_reply, Inr direct_reply]
           [Inr verdict_insufficient, Inr verdict_insufficient]",
     THEN conjunct2, THEN conjunct1, THEN mp, OF a2]
  note third = agentic_rag_rounds
    [of ?env zero_trust_query 3 ?s0 "0 + 1" ?m1 "Some nist_context" ?s1 ?direct
        "\<lparr>tool_replies = [], chat_replies = []\<rparr>",
     THEN conjunct2, THEN conjunct2, THEN mp, OF a3]
  show ?thesis
    using first second third a1 v2 reach by (simp add: numeral_2_eq_2)
qed

section \<open>The direct answer\<close>

text \<open>
  C2, as stated, fails where it speaks of empty content: the fixed string is the default of
  \<^verbatim>\<open>response.get("content", ...)\<close>, which applies to a reply without the field and to no other.
  A first reply without tool invocation whose content is the empty string is returned as it is.
\<close>

theorem direct_answer_counterexample:
  "fst (agentic_rag (scripted_env nist_metadata) zero_trust_query 3
          (start [Inr (JObj [(''role'', JStr ''assistant''), (''content'', JStr [])])] []))
     = Inr (JStr [])
   \<and> JStr [] \<noteq> JStr ''I couldn't find relevant information.''"
  by (simp add: run_defs)

text \<open>
  C2, amended.  For every query whose first tool-augmented reply carries no tool invocation (the
  field \<^verbatim>\<open>tool_calls\<close> is absent, or holds \<^verbatim>\<open>null\<close> or an empty list), a run of at least one round
  ends at once: it returns the value of the reply's content field as it is, or the fixed string
  where the reply has no content field; its only call is that one gateway call, and the critic
  is not called.
\<close>

theorem direct_answer:
  assumes "0 < mx"
    and "tools_completion env [UserMsg q] TOOLS AGENT_SYSTEM_PROMPT (world s) = (Inr (JObj reply), w')"
    and "\<not> truthy (case map_of reply ''tool_calls'' of None \<Rightarrow> JArr [] | Some calls \<Rightarrow> calls)"
  shows "fst (agentic_rag env q mx s)
           = Inr (case map_of reply ''content'' of
                    None \<Rightarrow> JStr ''I couldn't find relevant information.''
                  | Some content \<Rightarrow> content)
       \<and> trace (agentic_rag env q mx) s = [ToolChat [UserMsg q] TOOLS (Inr (JObj reply))]
       \<and> critic_calls (trace (agentic_rag env q mx) s) = 0"
proof -
  let ?answer = "case map_of reply ''content'' of
                   None \<Rightarrow> JStr ''I couldn't find relevant information.''
                 | Some content \<Rightarrow> content"
  let ?s' = "log_event (ToolChat [UserMsg q] TOOLS (Inr (JObj reply))) (s\<lparr>world := w'\<rparr>)"
  have "agent_iteration env q [UserMsg q] None s = (Inr (Return ?answer), ?s')"
    using assms(3) azure_chat_with_tools_reply [OF assms(2)]
    by (simp add: agent_iteration_def bindp_def lift_def ret_def dict_get_def)
  then have run: "agentic_rag env q mx s = (Inr ?answer, ?s')"
    by (rule agentic_rag_first_return [OF assms(1)])
  then have "trace (agentic_rag env q mx) s = [ToolChat [UserMsg q] TOOLS (Inr (JObj reply))]"
    by (simp add: trace_log_event)
  then show ?thesis
    using run by (simp add: critic_calls_def)
qed

theorem direct_answer_witness:
  "fst (agentic_rag (scripted_env nist_metadata) zero_trust_query 3 (start [Inr direct_reply] []))
     = Inr (JStr ''Zero trust is a security model.'')
   \<and> critic_calls (trace (agentic_rag (scripted_env nist_metadata) zero_trust_query 3)
        (start [Inr direct_reply] [])) = 0
   \<and> fst (agentic_rag (scripted_env nist_metadata) zero_trust_query 3
        (start [Inr (JObj [(''role'', JStr ''assistant'')])] []))
     = Inr (JStr ''I couldn't find relevant information.'')"
proof -
  have pos: "(0::int) < 3" by simp
  have gw1: "tools_completion (scripted_env nist_metadata) [UserMsg zero_trust_query] TOOLS
               AGENT_SYSTEM_PROMPT (world (start [Inr direct_reply] []))
             = (Inr (JObj [(''role'', JStr ''assistant''),
                           (''content'', JStr ''Zero trust is a security model.'')]),
                \<lparr>tool_replies = [], chat_replies = []\<rparr>)"
    by (simp add: scripted_env_def next_tools_def start_def direct_reply_def)
  have gw2: "tools_completion (scripted_env nist_metadata) [UserMsg zero_trust_query] TOOLS
               AGENT_SYSTEM_PROMPT (world (start [Inr (JObj [(''role'', JStr ''assistant'')])] []))
             = (Inr (JObj [(''role'', JStr ''assistant'')]), \<lparr>tool_replies = [], chat_replies = []\<rparr>)"
    by (simp add: scripted_env_def next_tools_def start_def)
  show ?thesis
    using direct_answer [OF pos gw1] direct_answer [OF pos gw2] by (simp add: critic_calls_def)
qed

section \<open>Tool arguments that do not decode\<close>

lemma tool_call_step_undecodable:
  assumes "subscript tool_call ''function'' = Inr fn"
    and "subscript fn ''name'' = Inr tool_name"
    and "subscript fn ''arguments'' = Inr (JStr raw)"
    and "loads env raw = Inl e"
  shows "tool_call_step env tool_call messages s = (Inl e, s)"
  using assms by (simp add: tool_call_step_def json_loads_def)

lemma run_tool_calls_append:
  "run_tool_calls env (pre @ calls) ctx messages s
     = (case run_tool_calls env pre ctx messages s of
          (Inl e, s1) \<Rightarrow> (Inl e, s1)
        | (Inr (ctx1, messages1), s1) \<Rightarrow> run_tool_calls env calls ctx1 messages1 s1)"
proof (induction pre arbitrary: ctx messages s)
  case Nil
  show ?case by simp
next
  case (Cons tool_call pre)
  show ?case
    by (cases "tool_call_step env tool_call messages s")
       (auto simp: Cons.IH split: sum.splits prod.splits)
qed

text \<open>
  C9 as stated fails: the text \<^verbatim>\<open>NaN\<close> is not valid JSON, and \<^verbatim>\<open>json.loads\<close> decodes it to a float
  without raising.  The invocation is then dispatched.  For a tool that is not registered
  \<^verbatim>\<open>execute_tool\<close> returns its diagnostic string and the pass goes on; for
  \<^verbatim>\<open>search_nist_knowledge\<close> the exception of the run is the AttributeError of \<^verbatim>\<open>arguments.get\<close>
  inside \<^verbatim>\<open>execute_tool\<close>, not a JSON decode error.
\<close>

theorem undecodable_arguments_counterexample:
  "loads (scripted_env nist_metadata) ''NaN'' = Inr (JFloat NotANumber)
   \<and> tool_call_step (scripted_env nist_metadata) nan_unknown_call [UserMsg zero_trust_query]
         (start [] [])
       = (Inr (''Unknown tool: does_not_exist'',
               [UserMsg zero_trust_query, AssistantMsg nan_unknown_call,
                ToolMsg (JStr ''call_4'') ''Unknown tool: does_not_exist'']),
          start [] [])
   \<and> execute_tool (scripted_env nist_metadata) (JStr ''search_nist_knowledge'') (JFloat NotANumber)
         (start [] [])
       = (Inl AttributeError, start [] [])
   \<and> fst (agentic_rag (scripted_env nist_metadata) zero_trust_query 3
            (start [Inr (JObj [(''role'', JStr ''assistant''), (''content'', JNull),
                               (''tool_calls'', JArr [nan_call])])] []))
       = Inl AttributeError"
  by (simp add: run_defs nan_call_def nan_unknown_call_def zero_trust_query_def)

text \<open>
  C9, amended.  A tool invocation with a function name and a string of arguments on which
  \<^verbatim>\<open>json.loads\<close> raises JSONDecodeError makes the run raise that exception before \<^verbatim>\<open>execute_tool\<close>
  is called: nothing is dispatched and the state is as it was.  Nothing catches the exception:
  the pass over a reply's tool calls that comes to the invocation ends with it, and so does the
  run, in whatever round it gets the reply and at whatever place of the reply the invocation
  stands, once the invocations before it have been carried out; the run makes no synthesis
  call.
\<close>

theorem undecodable_arguments_abort:
  assumes "subscript tool_call ''function'' = Inr fn"
    and "subscript fn ''name'' = Inr tool_name"
    and "subscript fn ''arguments'' = Inr (JStr raw)"
    and "loads env raw = Inl JSONDecodeError"
  shows "tool_call_step env tool_call messages s = (Inl JSONDecodeError, s)
       \<and> run_tool_calls env (pre @ tool_call # rest) ctx messages s
           = (case run_tool_calls env pre ctx messages s of
                (Inl e, s1) \<Rightarrow> (Inl e, s1)
              | (Inr passed, s1) \<Rightarrow> (Inl JSONDecodeError, s1))
       \<and> (loop_reaches env q mx s0 it m c s1 \<and> it < mx
            \<and> tools_completion env m TOOLS AGENT_SYSTEM_PROMPT (world s1) = (Inr (JObj reply), w')
            \<and> map_of reply ''tool_calls'' = Some (JArr (earlier @ tool_call # later))
            \<and> run_tool_calls env earlier c m
                  (log_event (ToolChat m TOOLS (Inr (JObj reply))) (s1\<lparr>world := w'\<rparr>))
                = (Inr carried, s2) \<longrightarrow>
          agentic_rag env q mx s0 = (Inl JSONDecodeError, s2)
        \<and> syntheses (trace (agentic_rag env q mx) s0) = 0)"
proof -
  note step = tool_call_step_undecodable [OF assms]
  have pass: "run_tool_calls env (pre @ tool_call # rest) ctx messages s
           = (case run_tool_calls env pre ctx messages s of
                (Inl e, s1) \<Rightarrow> (Inl e, s1)
              | (Inr passed, s1) \<Rightarrow> (Inl JSONDecodeError, s1))" for pre rest ctx messages s
    by (simp add: run_tool_calls_append step split: prod.splits sum.splits)
  have "agentic_rag env q mx s0 = (Inl JSONDecodeError, s2)
        \<and> syntheses (trace (agentic_rag env q mx) s0) = 0"
    if reach: "loop_reaches env q mx s0 it m c s1" and lt: "it < mx"
      and gw: "tools_completion env m TOOLS AGENT_SYSTEM_PROMPT (world s1) = (Inr (JObj reply), w')"
      and calls: "map_of reply ''tool_calls'' = Some (JArr (earlier @ tool_call # later))"
      and before: "run_tool_calls env earlier c m
                  (log_event (ToolChat m TOOLS (Inr (JObj reply))) (s1\<lparr>world := w'\<rparr>))
                = (Inr carried, s2)"
  proof -
    have round: "agent_iteration env q m c s1 = (Inl JSONDecodeError, s2)"
      using calls azure_chat_with_tools_reply [OF gw] before
      by (simp add: agent_iteration_def bindp_def lift_def dict_get_def py_iter_def pass)
    have run: "agentic_rag env q mx s0 = (Inl JSONDecodeError, s2)"
      using reach lt round by (rule agentic_rag_raise)
    have "agent_loop env q mx 0 [UserMsg q] None s0 = (Inl JSONDecodeError, s2)"
      using loop_reaches_agent_loop [OF reach] agent_loop_raise [OF lt round] by simp
    with run have "syntheses (trace (agentic_rag env q mx) s0) = 0"
      by (rule agentic_rag_ended)
    with run show ?thesis
      by simp
  qed
  then show ?thesis
    using step pass by blast
qed

theorem undecodable_arguments_abort_witness:
  \<open>loads (scripted_env nist_metadata) ''{"query": "zero tr'' = Inl JSONDecodeError
   \<and> tool_call_step (scripted_env nist_metadata) truncated_call [UserMsg zero_trust_query] (start [] [])
       = (Inl JSONDecodeError, start [] [])
   \<and> fst (run_tool_calls (scripted_env nist_metadata) [unknown_call, truncated_call, search_call]
            None [UserMsg zero_trust_query] (start [] []))
       = Inl JSONDecodeError
   \<and> fst (agentic_rag (scripted_env nist_metadata) zero_trust_query 3
            (start [Inr (JObj [(''role'', JStr ''assistant''), (''content'', JNull),
                               (''tool_calls'', JArr [unknown_call, truncated_call, search_call])])] []))
       = Inl JSONDecodeError
   \<and> syntheses (trace (agentic_rag (scripted_env nist_metadata) zero_trust_query 3)
         (start [Inr (JObj [(''role'', JStr ''assistant''), (''content'', JNull),
                            (''tool_calls'', JArr [unknown_call, truncated_call, search_call])])] []))
       = 0\<close>
proof -
  let ?env = "scripted_env nist_metadata"
  let ?reply = "[(''role'', JStr ''assistant''), (''content'', JNull),
                 (''tool_calls'', JArr [unknown_call, truncated_call, search_call])]"
  let ?s0 = "start [Inr (JObj ?reply)] []"
  let ?w' = "\<lparr>tool_replies = [], chat_replies = []\<rparr>"
  let ?s1 = "log_event (ToolChat [UserMsg zero_trust_query] TOOLS (Inr (JObj ?reply)))
               (?s0\<lparr>world := ?w'\<rparr>)"
  let ?carried = "(Some ''Unknown tool: does_not_exist'',
              [UserMsg zero_trust_query, AssistantMsg unknown_call,
               ToolMsg (JStr ''call_0'') ''Unknown tool: does_not_exist''])"
  have fn: \<open>subscript truncated_call ''function''
              = Inr (JObj [(''name'', JStr ''search_nist_knowledge''),
                           (''arguments'', JStr ''{"query": "zero tr'')])\<close>
    by (simp add: truncated_call_def subscript_def)
  have name: \<open>subscript (JObj [(''name'', JStr ''search_nist_knowledge''),
                                 (''arguments'', JStr ''{"query": "zero tr'')]) ''name''
                = Inr (JStr ''search_nist_knowledge'')\<close>
    by (simp add: subscript_def)
  have raw: \<open>subscript (JObj [(''name'', JStr ''search_nist_knowledge''),
                                (''arguments'', JStr ''{"query": "zero tr'')]) ''arguments''
               = Inr (JStr ''{"query": "zero tr'')\<close>
    by (simp add: subscript_def)
  have bad: \<open>loads ?env ''{"query": "zero tr'' = Inl JSONDecodeError\<close>
    by (simp add: scripted_env_def loads_plain_def decode_plain_def skip_ws_def json_ws_def)
  have gw: "tools_completion ?env [UserMsg zero_trust_query] TOOLS AGENT_SYSTEM_PROMPT (world ?s0)
            = (Inr (JObj ?reply), ?w')"
    by (simp add: scripted_env_def next_tools_def start_def)
  have calls: "map_of ?reply ''tool_calls''
      = Some (JArr ([unknown_call] @ truncated_call # [search_call]))"
    by simp
  have before: "run_tool_calls ?env [unknown_call] None [UserMsg zero_trust_query] s
      = (Inr ?carried, s)" for s
    by (simp add: run_defs unknown_call_def)
  have a: "loop_reaches ?env zero_trust_query 3 ?s0 0 [UserMsg zero_trust_query] None ?s0
      \<and> (0::int) < 3
      \<and> tools_completion ?env [UserMsg zero_trust_query] TOOLS AGENT_SYSTEM_PROMPT (world ?s0)
          = (Inr (JObj ?reply), ?w')
      \<and> map_of ?reply ''tool_calls'' = Some (JArr ([unknown_call] @ truncated_call # [search_call]))
      \<and> run_tool_calls ?env [unknown_call] None [UserMsg zero_trust_query] ?s1 = (Inr ?carried, ?s1)"
    using gw calls before [of ?s1] loop_reaches.first_round [of ?env zero_trust_query 3 ?s0]
    by simp
  note T = undecodable_arguments_abort [OF fn name raw bad]
  have "tool_call_step ?env truncated_call [UserMsg zero_trust_query] (start [] [])
       = (Inl JSONDecodeError, start [] [])"
    using T [of "[UserMsg zero_trust_query]" "start [] []"] by (rule conjunct1)
  moreover have "fst (run_tool_calls ?env [unknown_call, truncated_call, search_call]
            None [UserMsg zero_trust_query] (start [] [])) = Inl JSONDecodeError"
    using T [of "[UserMsg zero_trust_query]" "start [] []" "[unknown_call]" "[search_call]" None,
             THEN conjunct2, THEN conjunct1] before [of "start [] []"]
    by simp
  moreover have "agentic_rag ?env zero_trust_query 3 ?s0 = (Inl JSONDecodeError, ?s1)
        \<and> syntheses (trace (agentic_rag ?env zero_trust_query 3) ?s0) = 0"
    using T [of _ _ _ _ _ zero_trust_query 3 ?s0 0 "[UserMsg zero_trust_query]" None ?s0
               ?reply ?w' "[unknown_call]" "[search_call]" ?carried ?s1,
             THEN conjunct2, THEN conjunct2, THEN mp, OF a]
    by simp
  ultimately show ?thesis
    using bad by simp
qed

section \<open>A verdict without a decision\<close>

text \<open>
  C10 as stated fails: the critic's reply \<^verbatim>\<open>{"reasoning": null}\<close> parses as a JSON object
  lacking the key \<^verbatim>\<open>decision\<close>, and the orchestrator never reads it.  The log line of
  \<^verbatim>\<open>critic_evaluate\<close> slices the reasoning, which is \<^verbatim>\<open>None\<close>, and raises TypeError; only
  JSONDecodeError is caught there, so the exception leaves \<^verbatim>\<open>critic_evaluate\<close> and the run, which
  makes no synthesis call.
\<close>

theorem missing_decision_counterexample:
  \<open>loads (scripted_env nist_metadata) (cleaned_response ''{"reasoning": null}'')
       = Inr (JObj [(''reasoning'', JNull)])
   \<and> map_of [(''reasoning'', JNull)] ''decision'' = None
   \<and> fst (critic_evaluate (scripted_env nist_metadata) zero_trust_query nist_context
            (start [] [Inr verdict_null_reasoning]))
       = Inl TypeError
   \<and> fst (agentic_rag (scripted_env nist_metadata) zero_trust_query 3
            (start [Inr search_reply, Inr direct_reply] [Inr verdict_null_reasoning]))
       = Inl TypeError
   \<and> syntheses (trace (agentic_rag (scripted_env nist_metadata) zero_trust_query 3)
         (start [Inr search_reply, Inr direct_reply] [Inr verdict_null_reasoning])) = 0\<close>
  by (simp add: run_defs scenario_defs verdict_null_reasoning_def)

text \<open>
  C10, amended.  A reply of the critic that parses as a JSON object without the key
  \<^verbatim>\<open>decision\<close>, and whose reasoning is missing, a string or a list, is returned by
  \<^verbatim>\<open>critic_evaluate\<close> as the verdict, and the orchestrator reads a verdict without that key as
  \<^verbatim>\<open>sufficient\<close>: the round that obtained it ends by leaving the loop, with the messages and the
  context unchanged, and the run whose \<open>k\<close>-th verdict it is makes \<open>k\<close> tool-augmented calls and
  then the synthesis call, as after an approving verdict.
\<close>

theorem missing_decision_approves:
  assumes "map_of verdict ''decision'' = None"
  shows "approves (JObj verdict)
       \<and> (chat_completion env (critic_prompt query ctx) CRITIC_SYSTEM_PROMPT (world s)
              = (Inr (JStr response), w')
            \<and> loads env (cleaned_response response) = Inr (JObj verdict)
            \<and> (case map_of verdict ''reasoning'' of None \<Rightarrow> True
                | Some reasoning \<Rightarrow> sliceable reasoning)
            \<and> ctx \<noteq> [] \<longrightarrow>
            fst (critic_evaluate env query ctx s) = Inr (JObj verdict)
          \<and> fst (critic_step env query messages (Some ctx) s) = Inr (Break messages (Some ctx)))
       \<and> (ctx \<noteq> [] \<and> critic_evaluate env query ctx s = (Inr (JObj verdict), s') \<longrightarrow>
            critic_step env query messages (Some ctx) s = (Inr (Break messages (Some ctx)), s'))
       \<and> (1 \<le> k \<and> k \<le> length (verdicts (trace (agentic_rag env query mx) s0))
            \<and> verdicts (trace (agentic_rag env query mx) s0) ! (k - 1) = JObj verdict \<longrightarrow>
            map is_synthesis (filter is_tool_chat (trace (agentic_rag env query mx) s0))
              = replicate k False @ [True])"
proof -
  have ok: "approves (JObj verdict)"
    using assms by (simp add: approves_def dict_get_def)
  have returned: "fst (critic_evaluate env query ctx s) = Inr (JObj verdict)
          \<and> fst (critic_step env query messages (Some ctx) s) = Inr (Break messages (Some ctx))"
    if gw: "chat_completion env (critic_prompt query ctx) CRITIC_SYSTEM_PROMPT (world s)
              = (Inr (JStr response), w')"
      and decoded: "loads env (cleaned_response response) = Inr (JObj verdict)"
      and reasoning: "case map_of verdict ''reasoning'' of None \<Rightarrow> True
                      | Some reasoning \<Rightarrow> sliceable reasoning"
      and ne: "ctx \<noteq> []"
  proof -
    have "parse_verdict env response = Inr (JObj verdict)"
      using decoded reasoning
      by (simp add: parse_verdict_def dict_get_def sliceable_def split: option.splits)
    then have ce: "fst (critic_evaluate env query ctx s) = Inr (JObj verdict)"
      using critic_evaluate_reply [OF gw] by simp
    have "map_of verdict ''decision'' = None \<or> map_of verdict ''decision'' = Some (JStr ''sufficient'')"
      using assms by simp
    from critic_step_sufficient [OF ce this ne] ce show ?thesis
      by simp
  qed
  have broken: "critic_step env query messages (Some ctx) s = (Inr (Break messages (Some ctx)), s')"
    if "ctx \<noteq> []" and "critic_evaluate env query ctx s = (Inr (JObj verdict), s')"
    using that assms by (simp add: critic_step_def bindp_def lift_def ret_def dict_get_def)
  have run: "map is_synthesis (filter is_tool_chat (trace (agentic_rag env query mx) s0))
              = replicate k False @ [True]"
    if "1 \<le> k" and "k \<le> length (verdicts (trace (agentic_rag env query mx) s0))"
      and "verdicts (trace (agentic_rag env query mx) s0) ! (k - 1) = JObj verdict"
    using that ok by (intro run_after_approval(3)) simp_all
  show ?thesis
    apply (intro conjI impI)
    subgoal by (rule ok)
    subgoal using returned by blast
    subgoal using returned by blast
    subgoal using broken by blast
    subgoal using run by blast
    done
qed

theorem missing_decision_approves_witness:
  \<open>map_of [(''reasoning'', JStr ''covers the question'')] ''decision'' = None
   \<and> loads (scripted_env nist_metadata) (cleaned_response ''{"reasoning": "covers the question"}'')
       = Inr (JObj [(''reasoning'', JStr ''covers the question'')])
   \<and> fst (critic_evaluate (scripted_env nist_metadata) zero_trust_query nist_context
            (start [] [Inr verdict_undecided]))
       = Inr (JObj [(''reasoning'', JStr ''covers the question'')])
   \<and> fst (critic_step (scripted_env nist_metadata) zero_trust_query [UserMsg zero_trust_query]
            (Some nist_context) (start [] [Inr verdict_undecided]))
       = Inr (Break [UserMsg zero_trust_query] (Some nist_context))
   \<and> map is_synthesis (filter is_tool_chat
         (trace (agentic_rag (scripted_env nist_metadata) zero_trust_query 3)
            (start [Inr search_reply, Inr direct_reply] [Inr verdict_undecided])))
       = [False, True]\<close>
proof -
  let ?env = "scripted_env nist_metadata"
  let ?verdict = "[(''reasoning'', JStr ''covers the question'')]"
  let ?s = "start [] [Inr verdict_undecided]"
  let ?t = "start [Inr search_reply, Inr direct_reply] [Inr verdict_undecided]"
  let ?run = "trace (agentic_rag ?env zero_trust_query 3) ?t"
  have none: "map_of ?verdict ''decision'' = None"
    by simp
  have gw: \<open>chat_completion ?env (critic_prompt zero_trust_query nist_context) CRITIC_SYSTEM_PROMPT
              (world ?s)
            = (Inr (JStr ''{"reasoning": "covers the question"}''),
               \<lparr>tool_replies = [], chat_replies = []\<rparr>)\<close>
    by (simp add: scripted_env_def next_chat_def start_def verdict_undecided_def)
  have decoded: \<open>loads ?env (cleaned_response ''{"reasoning": "covers the question"}'')
                   = Inr (JObj ?verdict)\<close>
    by (simp add: run_defs)
  have ne: "nist_context \<noteq> []"
    by (simp add: nist_context_def)
  have a: \<open>chat_completion ?env (critic_prompt zero_trust_query nist_context) CRITIC_SYSTEM_PROMPT
              (world ?s)
            = (Inr (JStr ''{"reasoning": "covers the question"}''),
               \<lparr>tool_replies = [], chat_replies = []\<rparr>)
      \<and> loads ?env (cleaned_response ''{"reasoning": "covers the question"}'') = Inr (JObj ?verdict)
      \<and> (case map_of ?verdict ''reasoning'' of None \<Rightarrow> True
          | Some reasoning \<Rightarrow> sliceable reasoning)
      \<and> nist_context \<noteq> []\<close>
    using gw decoded ne by (simp add: sliceable_def)
  have vs: "verdicts ?run = [JObj ?verdict]"
    by (simp add: run_defs scenario_defs)
  then have b: "1 \<le> (1::nat) \<and> 1 \<le> length (verdicts ?run)
      \<and> verdicts ?run ! (1 - 1) = JObj ?verdict"
    by simp
  note T = missing_decision_approves [OF none]
  note returned = T [where env = ?env and query = zero_trust_query and ctx = nist_context
                       and s = ?s and messages = "[UserMsg zero_trust_query]",
                     THEN conjunct2, THEN conjunct1, THEN mp, OF a]
  note run = T [where env = ?env and query = zero_trust_query and mx = 3 and ?s0.0 = ?t
                  and k = 1,
                THEN conjunct2, THEN conjunct2, THEN conjunct2, THEN mp, OF b]
  show ?thesis
    using none decoded returned run by simp
qed

section \<open>The current context\<close>










section \<open>The arguments of the search tool\<close>

lemma collect_results_length:
  "collect_results env metadata found = Inr ps \<Longrightarrow> length ps \<le> length found"
proof (induction found arbitrary: ps)
  case Nil
  then show ?case by simp
next
  case (Cons pair rest)
  obtain dst idx where pair: "pair = (dst, idx)"
    by (cases pair)
  show ?case
  proof (cases "collect_results env metadata rest")
    case (Inl e)
    then show ?thesis
      using Cons.prems pair by (auto split: if_splits sum.splits)
  next
    case (Inr qs)
    from Cons.IH [OF Inr] have "length qs \<le> length rest" .
    then show ?thesis
      using Cons.prems pair Inr by (auto split: if_splits sum.splits)
  qed
qed

lemma retrieve_bounded:
  assumes "faiss_returns_top_k env"
    and "retrieve env query (JInt k) index metadata s = (Inr results, s')"
  shows "length results \<le> nat k"
proof -
  from assms(2) obtain index' metadata' v w found w' where
    search: "faiss_search env index' v (JInt k) w = (Inr found, w')"
    and collected: "collect_results env metadata' found = Inr results"
    by (auto simp: retrieve_def bindp_def lift_def ret_def index_search_def
          split: prod.splits sum.splits if_splits)
  from assms(1) search have "length found = nat k"
    unfolding faiss_returns_top_k_def by blast
  with collect_results_length [OF collected] show ?thesis
    by simp
qed

lemma replicate_numeral: "replicate (numeral n) x = x # replicate (pred_numeral n) x"
  by (simp add: numeral_eq_Suc)

lemma execute_tool_search:
  "execute_tool env (JStr ''search_nist_knowledge'') (JObj args)
     = bindp (get_index env) (\<lambda>(index, metadata).
       bindp (retrieve env (case map_of args ''query'' of None \<Rightarrow> JStr [] | Some query \<Rightarrow> query)
                (case map_of args ''top_k'' of None \<Rightarrow> JInt 5 | Some top_k \<Rightarrow> top_k)
                index metadata) (\<lambda>results.
         ret (format_context env results)))"
  by (rule ext) (simp add: execute_tool_def dict_get_def)

lemma embedded_append: "embedded (a @ b) = embedded a @ embedded b"
  by (induction a rule: embedded.induct) simp_all

lemma search_bounds_append: "search_bounds (a @ b) = search_bounds a @ search_bounds b"
  by (induction a rule: search_bounds.induct) simp_all

lemma retrieve_calls:
  assumes "retrieve env query top_k index metadata s = (r, s')"
  shows "\<exists>evs. events s' = events s @ evs
          \<and> (embedded evs = [] \<or> embedded evs = [query])
          \<and> (search_bounds evs = [] \<or> search_bounds evs = [top_k])
          \<and> (\<forall>results. r = Inr results \<longrightarrow>
                embedded evs = [query] \<and> search_bounds evs = [top_k])"
  using assms
  by (auto simp: retrieve_def bindp_def lift_def ret_def index_search_def azure_embed_def
        load_index_def log_event_def
        split: prod.splits sum.splits if_splits)

lemma get_index_calls:
  assumes "get_index env s = (r, s')"
  shows "\<exists>evs. events s' = events s @ evs \<and> embedded evs = [] \<and> search_bounds evs = []"
  using assms
  by (auto simp: get_index_def load_index_def log_event_def
        split: prod.splits sum.splits option.splits)

lemma execute_tool_calls:
  assumes "execute_tool env (JStr ''search_nist_knowledge'') (JObj args) s = (r, s')"
  shows "\<exists>evs. events s' = events s @ evs
          \<and> (embedded evs = []
               \<or> embedded evs = [case map_of args ''query'' of None \<Rightarrow> JStr [] | Some query \<Rightarrow> query])
          \<and> (search_bounds evs = []
               \<or> search_bounds evs = [case map_of args ''top_k'' of None \<Rightarrow> JInt 5 | Some top_k \<Rightarrow> top_k])
          \<and> (\<forall>context. r = Inr context \<longrightarrow>
                embedded evs = [case map_of args ''query'' of None \<Rightarrow> JStr [] | Some query \<Rightarrow> query]
              \<and> search_bounds evs
                  = [case map_of args ''top_k'' of None \<Rightarrow> JInt 5 | Some top_k \<Rightarrow> top_k])"
proof -
  let ?query = "case map_of args ''query'' of None \<Rightarrow> JStr [] | Some query \<Rightarrow> query"
  let ?top_k = "case map_of args ''top_k'' of None \<Rightarrow> JInt 5 | Some top_k \<Rightarrow> top_k"
  from assms have run: "bindp (get_index env) (\<lambda>(index, metadata).
       bindp (retrieve env ?query ?top_k index metadata) (\<lambda>results.
         ret (format_context env results))) s = (r, s')"
    by (simp add: execute_tool_search)
  then show ?thesis
  proof (cases rule: bindp_cases)
    case (raised e)
    from get_index_calls [OF raised(1)] raised(2) show ?thesis
      by auto
  next
    case (passed im s1)
    obtain index metadata where im: "im = (index, metadata)"
      by (cases im)
    from get_index_calls [OF passed(1)] obtain a where
      a: "events s1 = events s @ a" "embedded a = []" "search_bounds a = []"
      by blast
    from passed(2) im have "bindp (retrieve env ?query ?top_k index metadata) (\<lambda>results.
         ret (format_context env results)) s1 = (r, s')"
      by simp
    then obtain r2 where r2: "retrieve env ?query ?top_k index metadata s1 = (r2, s')"
      and res: "\<forall>context. r = Inr context \<longrightarrow> (\<exists>results. r2 = Inr results)"
      by (cases rule: bindp_cases) (auto simp: ret_def)
    from retrieve_calls [OF r2] obtain b where
      b: "events s' = events s1 @ b"
         "embedded b = [] \<or> embedded b = [?query]"
         "search_bounds b = [] \<or> search_bounds b = [?top_k]"
         "\<forall>results. r2 = Inr results \<longrightarrow> embedded b = [?query] \<and> search_bounds b = [?top_k]"
      by blast
    have "events s' = events s @ (a @ b)"
      using a(1) b(1) by simp
    moreover have "embedded (a @ b) = embedded b" "search_bounds (a @ b) = search_bounds b"
      using a(2,3) by (simp_all add: embedded_append search_bounds_append)
    ultimately show ?thesis
      using b(2,3,4) res by (intro exI [of _ "a @ b"]) auto
  qed
qed

lemma execute_tool_bounded:
  assumes "faiss_returns_top_k env"
    and "(case map_of args ''top_k'' of None \<Rightarrow> JInt 5 | Some top_k \<Rightarrow> top_k) = JInt k"
    and "execute_tool env (JStr ''search_nist_knowledge'') (JObj args) s = (Inr context, s')"
  shows "\<exists>results. context = format_context env results \<and> length results \<le> nat k"
proof -
  let ?query = "case map_of args ''query'' of None \<Rightarrow> JStr [] | Some query \<Rightarrow> query"
  from assms(2,3) have "bindp (get_index env) (\<lambda>(index, metadata).
       bindp (retrieve env ?query (JInt k) index metadata) (\<lambda>results.
         ret (format_context env results))) s = (Inr context, s')"
    by (simp add: execute_tool_search)
  then obtain index metadata s1 results where
    "retrieve env ?query (JInt k) index metadata s1 = (Inr results, s')"
    and "context = format_context env results"
    by (auto simp: bindp_def ret_def split: prod.splits sum.splits)
  with retrieve_bounded [OF assms(1)] show ?thesis
    by blast
qed

lemma scripted_env_returns_top_k: "faiss_returns_top_k (scripted_env metadata)"
  by (auto simp: faiss_returns_top_k_def scripted_env_def ranked_search_def split: if_splits)

text \<open>
  C7.  Called for \<^verbatim>\<open>search_nist_knowledge\<close> with a dictionary, \<^verbatim>\<open>execute_tool\<close> is the retrieval
  with the dictionary's \<^verbatim>\<open>query\<close>, the empty string where the key is absent, and its \<^verbatim>\<open>top_k\<close>,
  5 where the key is absent: reading the arguments raises nothing, and a dictionary without
  one of the keys is treated as the dictionary that holds the default.  The dispatcher embeds
  at most one text, that query, and searches the index at most once, with that bound, and
  does both where it returns.  With an index that answers a search for \<open>k\<close> neighbours with \<open>k\<close>
  labels, the context it returns is rendered from at most \<open>top_k\<close> passages.  The schema of the
  tool declares the default 5 for \<^verbatim>\<open>top_k\<close>.
\<close>

theorem execute_tool_search_defaults:
  "execute_tool env (JStr ''search_nist_knowledge'') (JObj args) s
     = bindp (get_index env) (\<lambda>(index, metadata).
       bindp (retrieve env (case map_of args ''query'' of None \<Rightarrow> JStr [] | Some query \<Rightarrow> query)
                (case map_of args ''top_k'' of None \<Rightarrow> JInt 5 | Some top_k \<Rightarrow> top_k)
                index metadata) (\<lambda>results.
         ret (format_context env results))) s
   \<and> (map_of args ''query'' = None \<longrightarrow>
        execute_tool env (JStr ''search_nist_knowledge'') (JObj args) s
          = execute_tool env (JStr ''search_nist_knowledge'') (JObj ((''query'', JStr []) # args)) s)
   \<and> (map_of args ''top_k'' = None \<longrightarrow>
        execute_tool env (JStr ''search_nist_knowledge'') (JObj args) s
          = execute_tool env (JStr ''search_nist_knowledge'') (JObj ((''top_k'', JInt 5) # args)) s)
   \<and> (embedded (trace (execute_tool env (JStr ''search_nist_knowledge'') (JObj args)) s) = []
        \<or> embedded (trace (execute_tool env (JStr ''search_nist_knowledge'') (JObj args)) s)
            = [case map_of args ''query'' of None \<Rightarrow> JStr [] | Some query \<Rightarrow> query])
   \<and> (search_bounds (trace (execute_tool env (JStr ''search_nist_knowledge'') (JObj args)) s) = []
        \<or> search_bounds (trace (execute_tool env (JStr ''search_nist_knowledge'') (JObj args)) s)
            = [case map_of args ''top_k'' of None \<Rightarrow> JInt 5 | Some top_k \<Rightarrow> top_k])
   \<and> (fst (execute_tool env (JStr ''search_nist_knowledge'') (JObj args) s) = Inr rendered \<longrightarrow>
        embedded (trace (execute_tool env (JStr ''search_nist_knowledge'') (JObj args)) s)
          = [case map_of args ''query'' of None \<Rightarrow> JStr [] | Some query \<Rightarrow> query]
      \<and> search_bounds (trace (execute_tool env (JStr ''search_nist_knowledge'') (JObj args)) s)
          = [case map_of args ''top_k'' of None \<Rightarrow> JInt 5 | Some top_k \<Rightarrow> top_k])
   \<and> (faiss_returns_top_k env
        \<and> (case map_of args ''top_k'' of None \<Rightarrow> JInt 5 | Some top_k \<Rightarrow> top_k) = JInt k
        \<and> fst (execute_tool env (JStr ''search_nist_knowledge'') (JObj args) s) = Inr rendered \<longrightarrow>
        (\<exists>results. rendered = format_context env results \<and> length results \<le> nat k))
   \<and> (faiss_returns_top_k env
        \<and> retrieve env query (JInt k) index metadata s = (Inr results, s') \<longrightarrow>
        length results \<le> nat k)
   \<and> (case subscript SEARCH_NIST_TOOL ''function'' of Inl e \<Rightarrow> Inl e | Inr fn \<Rightarrow>
       case subscript fn ''parameters'' of Inl e \<Rightarrow> Inl e | Inr ps \<Rightarrow>
       case subscript ps ''properties'' of Inl e \<Rightarrow> Inl e | Inr props \<Rightarrow>
       case subscript props ''top_k'' of Inl e \<Rightarrow> Inl e | Inr tk \<Rightarrow> subscript tk ''default'')
       = Inr (JInt 5)"
proof -
  let ?run = "execute_tool env (JStr ''search_nist_knowledge'') (JObj args)"
  let ?query = "case map_of args ''query'' of None \<Rightarrow> JStr [] | Some query \<Rightarrow> query"
  let ?top_k = "case map_of args ''top_k'' of None \<Rightarrow> JInt 5 | Some top_k \<Rightarrow> top_k"
  obtain r s1 where run: "?run s = (r, s1)"
    by (cases "?run s")
  from execute_tool_calls [OF run] obtain evs where
    ev: "events s1 = events s @ evs"
    and em: "embedded evs = [] \<or> embedded evs = [?query]"
    and sb: "search_bounds evs = [] \<or> search_bounds evs = [?top_k]"
    and ok: "\<forall>context. r = Inr context \<longrightarrow> embedded evs = [?query] \<and> search_bounds evs = [?top_k]"
    by blast
  have tr: "trace ?run s = evs"
    using run ev by (simp add: trace_def)
  have res: "fst (?run s) = r"
    using run by simp
  have bound: "\<exists>results. rendered = format_context env results \<and> length results \<le> nat k"
    if "faiss_returns_top_k env" and "?top_k = JInt k" and "fst (?run s) = Inr rendered"
  proof -
    from that(3) have "?run s = (Inr rendered, s1)"
      using run by simp
    with that(1,2) show ?thesis
      by (rule execute_tool_bounded)
  qed
  show ?thesis
    unfolding tr res
    apply (intro conjI impI)
    subgoal by (simp add: execute_tool_search)
    subgoal by (simp add: execute_tool_search)
    subgoal by (simp add: execute_tool_search)
    subgoal by (rule em)
    subgoal by (rule sb)
    subgoal using ok by simp
    subgoal using ok by simp
    subgoal using bound res by simp
    subgoal by (elim conjE) (rule retrieve_bounded)
    subgoal by (simp add: SEARCH_NIST_TOOL_def subscript_def)
    done
qed

theorem execute_tool_search_defaults_witness:
  "map_of [] ''query'' = (None :: json option)
   \<and> faiss_returns_top_k (scripted_env nist_metadata)
   \<and> execute_tool (scripted_env nist_metadata) (JStr ''search_nist_knowledge'') (JObj []) (start [] [])
       = execute_tool (scripted_env nist_metadata) (JStr ''search_nist_knowledge'')
           (JObj [(''query'', JStr [])]) (start [] [])
   \<and> execute_tool (scripted_env nist_metadata) (JStr ''search_nist_knowledge'') (JObj []) (start [] [])
       = execute_tool (scripted_env nist_metadata) (JStr ''search_nist_knowledge'')
           (JObj [(''top_k'', JInt 5)]) (start [] [])
   \<and> fst (execute_tool (scripted_env nist_metadata) (JStr ''search_nist_knowledge'') (JObj [])
            (start [] []))
       = Inr nist_context
   \<and> embedded (trace (execute_tool (scripted_env nist_metadata) (JStr ''search_nist_knowledge'')
                        (JObj [])) (start [] []))
       = [JStr []]
   \<and> search_bounds (trace (execute_tool (scripted_env nist_metadata) (JStr ''search_nist_knowledge'')
                             (JObj [])) (start [] []))
       = [JInt 5]
   \<and> (\<exists>results. nist_context = format_context (scripted_env nist_metadata) results
                \<and> length results \<le> 5)"
proof -
  let ?env = "scripted_env nist_metadata"
  let ?run = "execute_tool ?env (JStr ''search_nist_knowledge'') (JObj [])"
  have none: "map_of [] ''query'' = (None :: json option)" "map_of [] ''top_k'' = (None :: json option)"
    by simp_all
  have contract: "faiss_returns_top_k ?env"
    by (rule scripted_env_returns_top_k)
  have answer: "fst (?run (start [] [])) = Inr nist_context"
    by (simp add: run_defs scenario_defs replicate_numeral)
  note T = execute_tool_search_defaults
    [where env = ?env and args = "[]" and s = "start [] []" and rendered = nist_context
       and k = 5]
  note q = T [THEN conjunct2, THEN conjunct1, THEN mp, OF none(1)]
  note t = T [THEN conjunct2, THEN conjunct2, THEN conjunct1, THEN mp, OF none(2)]
  note calls = T [THEN conjunct2, THEN conjunct2, THEN conjunct2, THEN conjunct2, THEN conjunct2,
                  THEN conjunct1, THEN mp, OF answer]
  have pre: "faiss_returns_top_k ?env
      \<and> (case map_of [] ''top_k'' of None \<Rightarrow> JInt 5 | Some top_k \<Rightarrow> top_k) = JInt 5
      \<and> fst (?run (start [] [])) = Inr nist_context"
    using contract answer by simp
  note bound = T [THEN conjunct2, THEN conjunct2, THEN conjunct2, THEN conjunct2, THEN conjunct2,
                  THEN conjunct2, THEN conjunct1, THEN mp, OF pre]
  show ?thesis
    using none contract q t answer calls bound by simp
qed

end
